theory Spec2Isabelle
  imports Main "HOL-Library.Word" "HOL-Library.Sublist"
begin

section \<open>JavaScript strings\<close>

text \<open>
  The upload server (\<^verbatim>\<open>src/JS/A6_Fileupload/server.js\<close>) works on JavaScript strings.
  They are modelled as \<^typ>\<open>string\<close>, one \<^typ>\<open>char\<close> per code unit. Multer decodes
  the file name of a multipart request as Latin-1, so a code unit is a byte there. A route
  parameter can hold code units above 255; the sanitizer treats them like any other
  character outside its class, and they are not represented here.
\<close>

definition DOT :: char where
  "DOT = CHR ''.''"

definition SLASH :: char where
  "SLASH = CHR ''/''"

definition BACKSLASH :: char where
  "BACKSLASH = CHR 0x5C"

definition UNDERSCORE :: char where
  "UNDERSCORE = CHR ''_''"

text \<open>The character class \<^verbatim>\<open>[a-zA-Z0-9._-]\<close> of line 51.\<close>

definition inNameClass :: "char \<Rightarrow> bool" where
  "inNameClass c =
     (let n = (of_char c :: nat)
      in (97 \<le> n \<and> n \<le> 122) \<or> (65 \<le> n \<and> n \<le> 90) \<or> (48 \<le> n \<and> n \<le> 57)
         \<or> c = DOT \<or> c = UNDERSCORE \<or> c = CHR ''-'')"

text \<open>\<^verbatim>\<open>.replace(/[^a-zA-Z0-9._-]/g, '_')\<close>: every code unit outside the class becomes an underscore.\<close>

definition replaceInvalid :: "string \<Rightarrow> string" where
  "replaceInvalid s = map (\<lambda>c. if inNameClass c then c else UNDERSCORE) s"

text \<open>
  \<^verbatim>\<open>.replace(/\.\./g, '')\<close>: one pass from the left; each match of two dots is dropped and
  the scan goes on behind the match, so matches do not overlap.
\<close>

fun replaceDotDot :: "string \<Rightarrow> string" where
  "replaceDotDot (a # b # cs) =
     (if a = DOT \<and> b = DOT then replaceDotDot cs else a # replaceDotDot (b # cs))"
| "replaceDotDot cs = cs"

text \<open>\<^verbatim>\<open>.replace(/^\.+/, '')\<close>: the run of dots at the start, if any, is dropped.\<close>

definition replaceLeadingDots :: "string \<Rightarrow> string" where
  "replaceLeadingDots s = dropWhile (\<lambda>c. c = DOT) s"

text \<open>
  \<^verbatim>\<open>String.prototype.trim\<close>: white space and line terminators are removed at both ends. Among
  the code units below 256 these are TAB, LF, VT, FF, CR, SPACE and NBSP.
\<close>

definition isWhiteSpace :: "char \<Rightarrow> bool" where
  "isWhiteSpace c = ((of_char c :: nat) \<in> {9, 10, 11, 12, 13, 32, 160})"

definition trim :: "string \<Rightarrow> string" where
  "trim s = rev (dropWhile isWhiteSpace (rev (dropWhile isWhiteSpace s)))"

text \<open>\<^verbatim>\<open>String.prototype.toLowerCase\<close> on the code units below 256.\<close>

definition lowerChar :: "char \<Rightarrow> char" where
  "lowerChar c =
     (let n = (of_char c :: nat)
      in if (65 \<le> n \<and> n \<le> 90) \<or> (192 \<le> n \<and> n \<le> 222 \<and> n \<noteq> 215)
         then char_of (n + 32) else c)"

definition toLowerCase :: "string \<Rightarrow> string" where
  "toLowerCase s = map lowerChar s"

section \<open>Random bytes and their hexadecimal rendering\<close>

text \<open>
  \<^verbatim>\<open>crypto.randomBytes(8)\<close> is an input of the model: the list of bytes drawn.
  \<^verbatim>\<open>.toString('hex')\<close> writes each byte as two lower-case hexadecimal digits, high nibble first.
\<close>

definition hexDigit :: "nat \<Rightarrow> char" where
  "hexDigit n = ''0123456789abcdef'' ! (n mod 16)"

definition toHex :: "8 word list \<Rightarrow> string" where
  "toHex bs = concat (map (\<lambda>b. [hexDigit (unat b div 16), hexDigit (unat b mod 16)]) bs)"

definition isHexDigit :: "char \<Rightarrow> bool" where
  "isHexDigit c = (c \<in> set ''0123456789abcdef'')"

section \<open>The path module (POSIX flavour)\<close>

text \<open>
  The functions of the \<^verbatim>\<open>path\<close> module belong to Node.js, not to the repository. They are
  defined here after their documentation, in the POSIX flavour, and checked on its examples
  below. \<^verbatim>\<open>path.extname\<close> and \<^verbatim>\<open>path.basename\<close> look at the last component of a path:
  trailing separators are ignored, and the component is what follows the last separator
  before them.
\<close>

definition lastComponent :: "string \<Rightarrow> string" where
  "lastComponent p =
     rev (takeWhile (\<lambda>c. c \<noteq> SLASH) (dropWhile (\<lambda>c. c = SLASH) (rev p)))"

text \<open>
  \<^verbatim>\<open>path.extname(p)\<close>: from the last dot of the last component to its end; empty when the
  component has no dot, when its only dot is its first character, and for the component
  \<^verbatim>\<open>..\<close>.
\<close>

definition extname :: "string \<Rightarrow> string" where
  "extname p =
     (let c = lastComponent p;
          tail = rev (takeWhile (\<lambda>x. x \<noteq> DOT) (rev c));
          startDot = length c - length tail - 1
      in if DOT \<notin> set c then []
         else if startDot = 0 then []
         else if c = [DOT, DOT] then []
         else drop startDot c)"

text \<open>
  \<^verbatim>\<open>path.basename(p, suffix)\<close>: the last component of the path, without the suffix when the
  component ends with it and is longer than it; the empty string when the whole path is the
  suffix. Node compares the suffix from the end and stops at a separator: when this uses up
  the component before the suffix, the result keeps the trailing separators. The server
  only calls it on a name without separators.
\<close>

definition basename :: "string \<Rightarrow> string \<Rightarrow> string" where
  "basename p sfx =
     (let c = lastComponent p
      in if sfx \<noteq> [] \<and> length sfx \<le> length p
         then (if sfx = p then []
               else if suffix sfx c \<and> sfx \<noteq> c then take (length c - length sfx) c
               else if suffix c sfx \<and> c \<noteq> sfx
                 then c @ takeWhile (\<lambda>x. x = SLASH) (rev p)
               else c)
         else c)"

section \<open>The file-name sanitizer\<close>

text \<open>\<^verbatim>\<open>sanitizeFileName\<close>, lines 48 to 62; the first argument is the result of \<^verbatim>\<open>crypto.randomBytes(8)\<close>.\<close>

definition sanitizeFileName :: "8 word list \<Rightarrow> string \<Rightarrow> string" where
  "sanitizeFileName rnd fileName =
     (let sanitized = trim (replaceLeadingDots (replaceDotDot (replaceInvalid fileName)));
          hash = toHex rnd;
          ext = extname sanitized;
          nameWithoutExt = basename sanitized ext
      in nameWithoutExt @ [UNDERSCORE] @ hash @ ext)"


section \<open>Joining, normalising and resolving paths\<close>

text \<open>
  \<^verbatim>\<open>path.normalize\<close>, \<^verbatim>\<open>path.join\<close> and \<^verbatim>\<open>path.resolve\<close> work on the segments between
  separators: empty segments and \<^verbatim>\<open>.\<close> are dropped, \<^verbatim>\<open>..\<close> removes the segment before it;
  at the root it is dropped too, and in a relative path it is kept when nothing is left
  to remove. They are purely lexical: no symbolic link is followed.
\<close>

fun splitOn :: "char \<Rightarrow> string \<Rightarrow> string list" where
  "splitOn sep [] = [[]]"
| "splitOn sep (c # cs) =
     (if c = sep then [] # splitOn sep cs
      else (case splitOn sep cs of
              [] \<Rightarrow> [[c]]
            | seg # segs \<Rightarrow> (c # seg) # segs))"

fun joinWith :: "string \<Rightarrow> string list \<Rightarrow> string" where
  "joinWith sep [] = []"
| "joinWith sep [s] = s"
| "joinWith sep (s # t # ss) = s @ sep @ joinWith sep (t # ss)"

definition normStep :: "bool \<Rightarrow> string list \<Rightarrow> string \<Rightarrow> string list" where
  "normStep allowAboveRoot res seg =
     (if seg = [] \<or> seg = [DOT] then res
      else if seg = [DOT, DOT] then
        (if res \<noteq> [] \<and> last res \<noteq> [DOT, DOT] then butlast res
         else if allowAboveRoot then res @ [[DOT, DOT]]
         else res)
      else res @ [seg])"

definition normalizeString :: "string \<Rightarrow> bool \<Rightarrow> string" where
  "normalizeString p allowAboveRoot =
     joinWith [SLASH] (foldl (normStep allowAboveRoot) [] (splitOn SLASH p))"

definition isAbsolute :: "string \<Rightarrow> bool" where
  "isAbsolute p = (p \<noteq> [] \<and> hd p = SLASH)"

definition normalize :: "string \<Rightarrow> string" where
  "normalize p =
     (if p = [] then [DOT]
      else let trailingSeparator = (last p = SLASH);
               q = normalizeString p (\<not> isAbsolute p)
           in if q = [] then (if isAbsolute p then [SLASH]
                              else if trailingSeparator then [DOT, SLASH] else [DOT])
              else (if isAbsolute p then [SLASH] else []) @ q
                   @ (if trailingSeparator then [SLASH] else []))"

text \<open>\<^verbatim>\<open>path.join(...args)\<close>: the non-empty arguments, joined by separators and normalised.\<close>

definition path_join :: "string list \<Rightarrow> string" where
  "path_join args =
     (let joined = joinWith [SLASH] (filter (\<lambda>a. a \<noteq> []) args)
      in if joined = [] then [DOT] else normalize joined)"

text \<open>
  \<^verbatim>\<open>path.resolve(p)\<close> with one argument; \<open>cwd\<close> is \<^verbatim>\<open>process.cwd()\<close>, used when \<open>p\<close> is
  relative.
\<close>

definition path_resolve :: "string \<Rightarrow> string \<Rightarrow> string" where
  "path_resolve cwd p =
     (let resolvedPath = (if p = [] then [] else p @ [SLASH]);
          resolvedPath = (if isAbsolute p then resolvedPath else cwd @ [SLASH] @ resolvedPath);
          resolvedAbsolute = (isAbsolute p \<or> isAbsolute cwd);
          q = normalizeString resolvedPath (\<not> resolvedAbsolute)
      in if resolvedAbsolute then SLASH # q
         else if q \<noteq> [] then q else [DOT])"

text \<open>\<^verbatim>\<open>String.prototype.startsWith\<close>.\<close>

definition startsWith :: "string \<Rightarrow> string \<Rightarrow> bool" where
  "startsWith s pre = prefix pre s"

text \<open>
  A path that lies below a directory: the directory, a separator, and then segments none of
  which is empty, \<^verbatim>\<open>.\<close> or \<^verbatim>\<open>..\<close>.
\<close>

definition isDescendant :: "string \<Rightarrow> string \<Rightarrow> bool" where
  "isDescendant dir p =
     (prefix (dir @ [SLASH]) p \<and>
      list_all (\<lambda>seg. seg \<noteq> [] \<and> seg \<noteq> [DOT] \<and> seg \<noteq> [DOT, DOT])
        (splitOn SLASH (drop (length dir + 1) p)))"

section \<open>Security configuration\<close>

definition ALLOWED_MIME_TYPES :: "string list" where
  "ALLOWED_MIME_TYPES =
     [''image/jpeg'', ''image/jpg'', ''image/png'', ''image/gif'', ''application/pdf'',
      ''text/plain'']"

definition ALLOWED_EXTENSIONS :: "string list" where
  "ALLOWED_EXTENSIONS = [''.jpg'', ''.jpeg'', ''.png'', ''.gif'', ''.pdf'', ''.txt'']"

definition MAX_FILE_SIZE :: nat where
  "MAX_FILE_SIZE = 5 * 1024 * 1024"

definition MAX_UPLOADS_PER_MINUTE :: nat where
  "MAX_UPLOADS_PER_MINUTE = 10"

definition RATE_LIMIT_WINDOW :: int where
  "RATE_LIMIT_WINDOW = 60 * 1000"

text \<open>\<^verbatim>\<open>uploadDir = path.join(__dirname, 'uploads')\<close>; \<^verbatim>\<open>__dirname\<close> is a parameter.\<close>

definition uploadDir :: "string \<Rightarrow> string" where
  "uploadDir dirname = path_join [dirname, ''uploads'']"

definition isAllowedMimeType :: "string \<Rightarrow> bool" where
  "isAllowedMimeType mimetype = (mimetype \<in> set ALLOWED_MIME_TYPES)"

definition isAllowedExtension :: "string \<Rightarrow> bool" where
  "isAllowedExtension filename =
     (let ext = toLowerCase (extname filename) in ext \<in> set ALLOWED_EXTENSIONS)"

section \<open>The rate limiter\<close>

text \<open>
  \<^verbatim>\<open>uploadAttempts\<close> is a \<^verbatim>\<open>Map\<close> from the client address to the array of the times of its
  recorded attempts, in milliseconds. \<^verbatim>\<open>checkRateLimit\<close> (lines 82 to 98) takes the value of
  \<^verbatim>\<open>Date.now()\<close> and the map, and returns its result and the map as it leaves it.
\<close>

type_synonym attempts = "string \<rightharpoonup> int list"

definition attemptsOf :: "attempts \<Rightarrow> string \<Rightarrow> int list" where
  "attemptsOf m ip = (case m ip of None \<Rightarrow> [] | Some ts \<Rightarrow> ts)"

definition checkRateLimit :: "int \<Rightarrow> string \<Rightarrow> attempts \<Rightarrow> bool \<times> attempts" where
  "checkRateLimit now ip uploadAttempts =
     (let userAttempts = attemptsOf uploadAttempts ip;
          recentAttempts = filter (\<lambda>timestamp. now - timestamp < RATE_LIMIT_WINDOW) userAttempts
      in if length recentAttempts \<ge> MAX_UPLOADS_PER_MINUTE then (False, uploadAttempts)
         else (True, uploadAttempts(ip \<mapsto> recentAttempts @ [now])))"

text \<open>
  A run of calls, each with its time and client; the log keeps the result of each call.
\<close>

fun runCalls :: "(int \<times> string) list \<Rightarrow> attempts \<Rightarrow> (int \<times> string \<times> bool) list \<times> attempts" where
  "runCalls [] m = ([], m)"
| "runCalls ((now, ip) # calls) m =
     (let (ok, m1) = checkRateLimit now ip m;
          (log, m2) = runCalls calls m1
      in ((now, ip, ok) # log, m2))"

text \<open>The times of the calls of a client that returned true, in the order of the calls.\<close>

definition acceptedTimes :: "string \<Rightarrow> (int \<times> string \<times> bool) list \<Rightarrow> int list" where
  "acceptedTimes ip log = map fst (filter (\<lambda>(t, c, ok). c = ip \<and> ok) log)"


section \<open>Files, the disk and responses\<close>

text \<open>
  The file object of multer: what the multipart request says about the file, and, once the
  disk storage has written it, where it went and how many bytes were written.
\<close>

record fileInfo =
  originalname :: string
  mimetype :: string

record filePart = fileInfo +
  content :: "8 word list"

record storedFile = fileInfo +
  destination :: string
  filename :: string
  path :: string
  size_f :: nat

text \<open>The disk maps a path to the bytes of the file there.\<close>

type_synonym disk = "string \<rightharpoonup> 8 word list"

datatype fsError = ENOENT string

definition existsSync :: "disk \<Rightarrow> string \<Rightarrow> bool" where
  "existsSync d p = (d p \<noteq> None)"

text \<open>\<^verbatim>\<open>fs.unlinkSync\<close> throws when there is no file at the path.\<close>

definition unlinkSync :: "disk \<Rightarrow> string \<Rightarrow> fsError + disk" where
  "unlinkSync d p = (if d p = None then Inl (ENOENT p) else Inr (d(p := None)))"

definition errorMessage :: "fsError \<Rightarrow> string" where
  "errorMessage e =
     (case e of ENOENT p \<Rightarrow>
        ''ENOENT: no such file or directory, unlink '' @ [CHR 0x27] @ p @ [CHR 0x27])"

text \<open>
  A response is a status with a JSON body, or the file sent by \<^verbatim>\<open>res.sendFile\<close>. The body is
  \<^verbatim>\<open>{success: false, error}\<close> or
  \<^verbatim>\<open>{success: true, message, file: {originalName, filename, size, mimetype, path}}\<close>.
\<close>

datatype body =
    Failure string
  | Success string string string nat string string

datatype response =
    Json nat body
  | SendFile string

text \<open>An error handed to the callback of the multer middleware: a \<^verbatim>\<open>MulterError\<close> with its
  code and message, or a plain \<^verbatim>\<open>Error\<close> with its message.\<close>

datatype uploadError =
    MulterError string string
  | PlainError string

definition msgExtension :: string where
  "msgExtension = ''Dateityp nicht erlaubt. Erlaubte Typen: '' @ joinWith '', '' ALLOWED_EXTENSIONS"

definition msgMimeType :: string where
  "msgMimeType = ''MIME-Type nicht erlaubt. Erlaubte Typen: '' @ joinWith '', '' ALLOWED_MIME_TYPES"

text \<open>The message of lines 227 and 266; \<^verbatim>\<open>MAX_FILE_SIZE / (1024 * 1024)\<close> prints as 5.\<close>

definition msgTooLarge :: string where
  "msgTooLarge =
     ''Datei zu gro'' @ [CHR 0xDF] @ ''. Maximale Gr'' @ [CHR 0xF6, CHR 0xDF] @ ''e: 5 MB''"

definition msgRateLimited :: string where
  "msgRateLimited =
     ''Zu viele Upload-Versuche. Bitte versuchen Sie es sp'' @ [CHR 0xE4] @ ''ter erneut.''"

section \<open>The upload gate\<close>

text \<open>\<^verbatim>\<open>checkFileSize\<close>, lines 103 to 105.\<close>

definition checkFileSize :: "storedFile \<Rightarrow> bool" where
  "checkFileSize file = (size_f file \<le> MAX_FILE_SIZE)"

text \<open>
  \<^verbatim>\<open>fileFilter\<close>, lines 129 to 141: the callback gets an error, or \<^verbatim>\<open>true\<close> to accept the
  file.
\<close>

definition fileFilter :: "'a fileInfo_scheme \<Rightarrow> uploadError + bool" where
  "fileFilter file =
     (if \<not> isAllowedExtension (originalname file) then Inl (PlainError msgExtension)
      else if \<not> isAllowedMimeType (mimetype file) then Inl (PlainError msgMimeType)
      else Inr True)"

section \<open>Storing an upload\<close>

text \<open>The \<^verbatim>\<open>filename\<close> function of the disk storage, lines 115 to 119.\<close>

definition storageFilename :: "8 word list \<Rightarrow> 'a fileInfo_scheme \<Rightarrow> string" where
  "storageFilename rnd file = sanitizeFileName rnd (originalname file)"

text \<open>
  The middleware \<^verbatim>\<open>upload.single('file')\<close> of multer, configured in lines 111 to 142, on a
  request with at most one file part. The file filter runs before anything is written. The
  disk storage then writes the part to \<^verbatim>\<open>path.join(destination, filename)\<close> and reports the
  number of bytes written as \<^verbatim>\<open>size\<close>. A part longer than \<^verbatim>\<open>limits.fileSize\<close> ends in the
  error \<^verbatim>\<open>LIMIT_FILE_SIZE\<close>, and multer removes what the storage has written. Multer is a
  library: this is its documented behaviour, and writing to the disk is taken to succeed.
\<close>

definition multerSingle ::
  "string \<Rightarrow> 8 word list \<Rightarrow> disk \<Rightarrow> filePart option
     \<Rightarrow> (uploadError + storedFile option) \<times> disk" where
  "multerSingle dirname rnd d part =
     (case part of
        None \<Rightarrow> (Inr None, d)
      | Some file \<Rightarrow>
          (case fileFilter file of
             Inl err \<Rightarrow> (Inl err, d)
           | Inr _ \<Rightarrow>
               (let dest = uploadDir dirname;
                    name = storageFilename rnd file;
                    finalPath = path_join [dest, name]
                in if length (content file) > MAX_FILE_SIZE
                   then (Inl (MulterError ''LIMIT_FILE_SIZE'' ''File too large''),
                         d(finalPath := None))
                   else (Inr (Some \<lparr>originalname = originalname file,
                                     mimetype = mimetype file,
                                     destination = dest, filename = name, path = finalPath,
                                     size_f = length (content file)\<rparr>),
                         d(finalPath \<mapsto> content file)))))"

text \<open>The callback of lines 219 to 244, when multer reports an error.\<close>

definition multerErrorResponse :: "uploadError \<Rightarrow> response" where
  "multerErrorResponse err =
     (case err of
        MulterError code message \<Rightarrow>
          (if code = ''LIMIT_FILE_SIZE'' then Json 400 (Failure msgTooLarge)
           else Json 400 (Failure (''Upload-Fehler: '' @ message)))
      | PlainError message \<Rightarrow>
          Json 400 (Failure (if message \<noteq> [] then message
                             else ''Fehler beim Hochladen der Datei'')))"

text \<open>
  The final handler of \<^verbatim>\<open>POST /upload\<close>, lines 245 to 296, on \<^verbatim>\<open>req.file\<close> and the disk. The
  \<^verbatim>\<open>catch\<close> block is \<open>uploadCatch\<close>.
\<close>

definition uploadCatch :: "disk \<Rightarrow> storedFile \<Rightarrow> fsError \<Rightarrow> response \<times> disk" where
  "uploadCatch d file error =
     (let d' = (if existsSync d (path file)
                then (case unlinkSync d (path file) of Inr d1 \<Rightarrow> d1 | Inl _ \<Rightarrow> d)
                else d)
      in (Json 500 (Failure (''Fehler beim Hochladen der Datei: '' @ errorMessage error)), d'))"

definition uploadHandler :: "disk \<Rightarrow> storedFile option \<Rightarrow> response \<times> disk" where
  "uploadHandler d reqFile =
     (case reqFile of
        None \<Rightarrow> (Json 400 (Failure ''Keine Datei hochgeladen''), d)
      | Some file \<Rightarrow>
          if \<not> checkFileSize file then
            (case unlinkSync d (path file) of
               Inl error \<Rightarrow> uploadCatch d file error
             | Inr d' \<Rightarrow> (Json 400 (Failure msgTooLarge), d'))
          else
            (Json 200 (Success ''Datei erfolgreich hochgeladen''
                         (originalname file) (filename file) (size_f file) (mimetype file)
                         (''/uploads/'' @ filename file)),
             d))"

text \<open>The rate-limiting middleware of lines 168 to 184; \<open>clientIp\<close> is what \<^verbatim>\<open>getClientIp\<close> returns.\<close>

definition rateLimitMiddleware ::
  "string \<Rightarrow> int \<Rightarrow> string \<Rightarrow> attempts \<Rightarrow> response option \<times> attempts" where
  "rateLimitMiddleware method now clientIp m =
     (if method \<noteq> ''POST'' then (None, m)
      else (case checkRateLimit now clientIp m of
              (ok, m') \<Rightarrow>
                if \<not> ok then (Some (Json 429 (Failure msgRateLimited)), m') else (None, m')))"

text \<open>The state of the server: the attempts of the rate limiter and the disk.\<close>

record server =
  attempts :: attempts
  disk :: disk

text \<open>A \<^verbatim>\<open>POST /upload\<close> request through the whole chain.\<close>

definition postUpload ::
  "string \<Rightarrow> 8 word list \<Rightarrow> int \<Rightarrow> string \<Rightarrow> filePart option \<Rightarrow> server
     \<Rightarrow> response \<times> server" where
  "postUpload dirname rnd now clientIp part s =
     (case rateLimitMiddleware ''POST'' now clientIp (attempts s) of
        (Some r, m') \<Rightarrow> (r, s\<lparr>attempts := m'\<rparr>)
      | (None, m') \<Rightarrow>
          (case multerSingle dirname rnd (disk s) part of
             (Inl err, d') \<Rightarrow> (multerErrorResponse err, \<lparr>attempts = m', disk = d'\<rparr>)
           | (Inr reqFile, d') \<Rightarrow>
               (case uploadHandler d' reqFile of
                  (r, d'') \<Rightarrow> (r, \<lparr>attempts = m', disk = d''\<rparr>))))"

section \<open>Serving an uploaded file\<close>

text \<open>
  \<^verbatim>\<open>GET /uploads/:filename\<close>, lines 299 to 322. \<open>lookupPath\<close> is \<^verbatim>\<open>filePath\<close> of lines 300
  and 301; \<open>serveGuard\<close> is the rest of the handler, from line 303.
\<close>

definition lookupPath :: "string \<Rightarrow> 8 word list \<Rightarrow> string \<Rightarrow> string" where
  "lookupPath dirname rnd requested =
     (let filename = sanitizeFileName rnd requested
      in path_join [uploadDir dirname, filename])"

definition serveGuard :: "string \<Rightarrow> string \<Rightarrow> disk \<Rightarrow> string \<Rightarrow> response" where
  "serveGuard dirname cwd d filePath =
     (if \<not> existsSync d filePath then Json 404 (Failure ''Datei nicht gefunden'')
      else let resolvedPath = path_resolve cwd filePath;
               resolvedDir = path_resolve cwd (uploadDir dirname)
           in if \<not> startsWith resolvedPath resolvedDir
              then Json 403 (Failure ''Zugriff verweigert'')
              else SendFile (path_resolve cwd filePath))"

definition getUploadedFile ::
  "string \<Rightarrow> string \<Rightarrow> 8 word list \<Rightarrow> disk \<Rightarrow> string \<Rightarrow> response" where
  "getUploadedFile dirname cwd rnd d requested =
     serveGuard dirname cwd d (lookupPath dirname rnd requested)"

section \<open>The sanitizer as the specification words it\<close>

text \<open>
  The specification's algorithm, step by step: replace every character outside
  \<^verbatim>\<open>[A-Za-z0-9._-]\<close> with an underscore; remove all \<^verbatim>\<open>..\<close> substrings; strip leading dots;
  split into base name and extension; append the hexadecimal suffix to the base name;
  reassemble as \<^verbatim>\<open>base_suffix.ext\<close>.
\<close>

definition spec_allowed :: "char \<Rightarrow> bool" where
  "spec_allowed c =
     (c \<in> set ''ABCDEFGHIJKLMNOPQRSTUVWXYZabcdefghijklmnopqrstuvwxyz0123456789._-'')"

definition spec_replace :: "string \<Rightarrow> string" where
  "spec_replace s = map (\<lambda>c. if spec_allowed c then c else CHR ''_'') s"

fun spec_removeDotDot :: "string \<Rightarrow> string" where
  "spec_removeDotDot [] = []"
| "spec_removeDotDot [c] = [c]"
| "spec_removeDotDot (a # b # cs) =
     (if [a, b] = ''..'' then spec_removeDotDot cs else a # spec_removeDotDot (b # cs))"

definition spec_stripLeadingDots :: "string \<Rightarrow> string" where
  "spec_stripLeadingDots s = dropWhile (\<lambda>c. c = CHR ''.'') s"

text \<open>The extension is what starts at the last dot; without a dot there is none.\<close>

definition spec_split :: "string \<Rightarrow> string \<times> string" where
  "spec_split s =
     (if CHR ''.'' \<in> set s
      then (let n = length (takeWhile (\<lambda>c. c \<noteq> CHR ''.'') (rev s))
            in (take (length s - n - 1) s, drop (length s - n - 1) s))
      else (s, []))"

definition spec_sanitize :: "string \<Rightarrow> string \<Rightarrow> string" where
  "spec_sanitize hexSuffix rawName =
     (case spec_split (spec_stripLeadingDots (spec_removeDotDot (spec_replace rawName))) of
        (base, ext) \<Rightarrow> base @ ''_'' @ hexSuffix @ ext)"


section \<open>Notions for stating the properties\<close>

text \<open>The value of \<^verbatim>\<open>sanitized\<close> in \<^verbatim>\<open>sanitizeFileName\<close>, before the hash is added.\<close>

definition cleanName :: "string \<Rightarrow> string" where
  "cleanName fileName = trim (replaceLeadingDots (replaceDotDot (replaceInvalid fileName)))"

text \<open>Two dots side by side somewhere in a string.\<close>

fun hasDotDot :: "string \<Rightarrow> bool" where
  "hasDotDot (a # b # cs) = ((a = DOT \<and> b = DOT) \<or> hasDotDot (b # cs))"
| "hasDotDot cs = False"

text \<open>
  A segment that normalisation keeps as it is, and the absolute path made of such segments.
\<close>

definition regularSeg :: "string \<Rightarrow> bool" where
  "regularSeg seg = (seg \<noteq> [] \<and> seg \<noteq> [DOT] \<and> seg \<noteq> [DOT, DOT] \<and> SLASH \<notin> set seg)"

definition absPath :: "string list \<Rightarrow> string" where
  "absPath segs = SLASH # joinWith [SLASH] segs"

text \<open>
  An example run of the rate limiter from the empty map: client \<open>a\<close> calls ten times and
  client \<open>b\<close> once; the log and the map it ends with.
\<close>

definition tenCalls :: "(int \<times> string) list" where
  "tenCalls = [(1000, ''a''), (2000, ''a''), (3000, ''b''), (4000, ''a''), (5000, ''a''),
               (6000, ''a''), (7000, ''a''), (8000, ''a''), (9000, ''a''), (10000, ''a''),
               (11000, ''a'')]"

definition tenLog :: "(int \<times> string \<times> bool) list" where
  "tenLog = [(1000, ''a'', True), (2000, ''a'', True), (3000, ''b'', True), (4000, ''a'', True),
         (5000, ''a'', True), (6000, ''a'', True), (7000, ''a'', True), (8000, ''a'', True),
         (9000, ''a'', True), (10000, ''a'', True), (11000, ''a'', True)]"

definition tenState :: attempts where
  "tenState = [''b'' \<mapsto> [3000],
         ''a'' \<mapsto> [1000, 2000, 4000, 5000, 6000, 7000, 8000, 9000, 10000, 11000]]"

text \<open>
  Example uploads: a small PDF, an executable, a PDF one byte over the ceiling; a disk with
  one older file and the server in its first state; and a stored file whose reported size
  is over the ceiling.
\<close>

definition pdfPart :: filePart where
  "pdfPart = \<lparr>originalname = ''report.pdf'', mimetype = ''application/pdf'',
              content = [37, 80, 68, 70]\<rparr>"

definition exePart :: filePart where
  "exePart = \<lparr>originalname = ''evil.EXE'', mimetype = ''application/x-msdownload'',
              content = [77, 90]\<rparr>"

definition bigPart :: filePart where
  "bigPart = \<lparr>originalname = ''report.pdf'', mimetype = ''application/pdf'',
              content = replicate (Suc MAX_FILE_SIZE) 0\<rparr>"

definition disk0 :: disk where
  "disk0 = [''/app/uploads/old_00.txt'' \<mapsto> [111]]"

definition server0 :: server where
  "server0 = \<lparr>attempts = Map.empty, disk = disk0\<rparr>"

definition bigStored :: storedFile where
  "bigStored = \<lparr>originalname = ''big.pdf'', mimetype = ''application/pdf'',
                destination = ''/app/uploads'', filename = ''big_00.pdf'',
                path = ''/app/uploads/big_00.pdf'', size_f = Suc MAX_FILE_SIZE\<rparr>"

section \<open>The path functions on the examples of the Node.js documentation\<close>

lemma extname_examples:
  "extname ''index.html'' = ''.html''"
  "extname ''index.coffee.md'' = ''.md''"
  "extname ''index.'' = ''.''"
  "extname ''index'' = []"
  "extname ''.index'' = []"
  "extname ''.index.md'' = ''.md''"
  by code_simp+

lemma basename_examples:
  "basename ''/foo/bar/baz/asdf/quux.html'' [] = ''quux.html''"
  "basename ''/foo/bar/baz/asdf/quux.html'' ''.html'' = ''quux''"
  by code_simp+

lemma normalize_examples:
  "normalize ''/foo/bar//baz/asdf/quux/..'' = ''/foo/bar/baz/asdf''"
  "path_join [''/foo'', ''bar'', ''baz/asdf'', ''quux'', ''..''] = ''/foo/bar/baz/asdf''"
  "path_resolve ''/home/node'' ''/foo/bar/./baz'' = ''/foo/bar/baz''"
  by code_simp+

section \<open>The upload gate checks the extension first\<close>

lemma messages_differ: "msgExtension \<noteq> msgMimeType"
  by (simp add: msgExtension_def msgMimeType_def)

lemma lower_ext_EXE: "toLowerCase (extname ''evil.EXE'') = ''.exe''"
  by code_simp

lemma lower_ext_JPG: "toLowerCase (extname ''Photo.JPG'') = ''.jpg''"
  by code_simp

text \<open>
  C7. The file filter checks the extension before the MIME type and stops at the first
  failure: a file whose lower-cased extension is not in the allow-list
  \<^verbatim>\<open>.jpg .jpeg .png .gif .pdf .txt\<close> is rejected with the extension error, whatever its MIME
  type; the MIME error is only returned for a file whose extension passed; a file that
  passes both checks is accepted.
\<close>

theorem fileFilter_extension_first:
  "(toLowerCase (extname (originalname file)) \<notin> set ALLOWED_EXTENSIONS
      \<longrightarrow> fileFilter file = Inl (PlainError msgExtension))
   \<and> (fileFilter file = Inl (PlainError msgMimeType)
      \<longrightarrow> toLowerCase (extname (originalname file)) \<in> set ALLOWED_EXTENSIONS
          \<and> mimetype file \<notin> set ALLOWED_MIME_TYPES)
   \<and> (toLowerCase (extname (originalname file)) \<in> set ALLOWED_EXTENSIONS
        \<and> mimetype file \<in> set ALLOWED_MIME_TYPES \<longrightarrow> fileFilter file = Inr True)
   \<and> ALLOWED_EXTENSIONS = [''.jpg'', ''.jpeg'', ''.png'', ''.gif'', ''.pdf'', ''.txt'']"
  using messages_differ
  by (auto simp: fileFilter_def isAllowedExtension_def isAllowedMimeType_def
      ALLOWED_EXTENSIONS_def)

theorem fileFilter_extension_first_witness:
  "toLowerCase (extname ''evil.EXE'') \<notin> set ALLOWED_EXTENSIONS
   \<and> ''application/x-msdownload'' \<notin> set ALLOWED_MIME_TYPES
   \<and> fileFilter \<lparr>originalname = ''evil.EXE'', mimetype = ''application/x-msdownload''\<rparr>
       = Inl (PlainError msgExtension)
   \<and> fileFilter \<lparr>originalname = ''Photo.JPG'', mimetype = ''application/x-msdownload''\<rparr>
       = Inl (PlainError msgMimeType)"
proof -
  have a: "toLowerCase (extname ''evil.EXE'') \<notin> set ALLOWED_EXTENSIONS"
    by (simp add: lower_ext_EXE ALLOWED_EXTENSIONS_def)
  have b: "''application/x-msdownload'' \<notin> set ALLOWED_MIME_TYPES"
    by (simp add: ALLOWED_MIME_TYPES_def)
  have c: "fileFilter \<lparr>originalname = ''Photo.JPG'', mimetype = ''application/x-msdownload''\<rparr>
       = Inl (PlainError msgMimeType)"
    by (simp add: fileFilter_def isAllowedExtension_def isAllowedMimeType_def lower_ext_JPG
        ALLOWED_EXTENSIONS_def ALLOWED_MIME_TYPES_def)
  show ?thesis
    using a b c
      fileFilter_extension_first
        [of "\<lparr>originalname = ''evil.EXE'', mimetype = ''application/x-msdownload''\<rparr>"]
    by simp
qed

section \<open>What the cleaning steps of the sanitizer leave\<close>

lemma hasDotDot_sublist: "hasDotDot s \<longleftrightarrow> sublist [DOT, DOT] s"
  by (induction s rule: hasDotDot.induct) (auto simp: sublist_Cons_right)

lemma hasDotDot_Cons_other [simp]: "a \<noteq> DOT \<Longrightarrow> hasDotDot (a # s) = hasDotDot s"
  by (cases s) auto

lemma hasDotDot_append_right: "hasDotDot ys \<Longrightarrow> hasDotDot (xs @ ys)"
  by (simp add: hasDotDot_sublist sublist_append)

lemma hasDotDot_append_left: "hasDotDot xs \<Longrightarrow> hasDotDot (xs @ ys)"
  by (simp add: hasDotDot_sublist sublist_append)

lemma hasDotDot_sep: "c \<noteq> DOT \<Longrightarrow> hasDotDot (xs @ c # ys) \<longleftrightarrow> hasDotDot xs \<or> hasDotDot ys"
  by (induction xs rule: hasDotDot.induct) auto

lemma hasDotDot_no_dot: "DOT \<notin> set xs \<Longrightarrow> hasDotDot (xs @ ys) = hasDotDot ys"
  by (induction xs) auto

lemma inNameClass_UNDERSCORE [simp]: "inNameClass UNDERSCORE"
  by (simp add: inNameClass_def)

lemma set_replaceInvalid: "c \<in> set (replaceInvalid s) \<Longrightarrow> inNameClass c"
  by (auto simp: replaceInvalid_def)

lemma set_replaceDotDot: "set (replaceDotDot s) \<subseteq> set s"
  by (induction s rule: replaceDotDot.induct) auto

lemma replaceDotDot_Cons_other: "b \<noteq> DOT \<Longrightarrow> replaceDotDot (b # cs) = b # replaceDotDot cs"
  by (cases cs) auto

lemma replaceDotDot_no_DotDot: "\<not> hasDotDot (replaceDotDot s)"
proof (induction s rule: replaceDotDot.induct)
  case (1 a b cs)
  show ?case
  proof (cases "a = DOT \<and> b = DOT")
    case True
    with 1 show ?thesis by simp
  next
    case False
    show ?thesis
    proof (cases "a = DOT")
      case True
      with False have "b \<noteq> DOT" by simp
      then have "replaceDotDot (b # cs) = b # replaceDotDot cs"
        by (rule replaceDotDot_Cons_other)
      with 1 False \<open>b \<noteq> DOT\<close> show ?thesis by simp
    next
      case False
      with 1 show ?thesis by simp
    qed
  qed
qed simp_all

lemma hasDotDot_dropWhile: "hasDotDot (dropWhile P s) \<Longrightarrow> hasDotDot s"
  using hasDotDot_append_right [of "dropWhile P s" "takeWhile P s"] by simp

lemma not_white_inNameClass: "inNameClass c \<Longrightarrow> \<not> isWhiteSpace c"
  by (auto simp: inNameClass_def isWhiteSpace_def Let_def DOT_def UNDERSCORE_def)

lemma dropWhile_none: "\<forall>c\<in>set s. \<not> P c \<Longrightarrow> dropWhile P s = s"
  by (cases s) auto

lemma trim_id: "\<forall>c\<in>set s. \<not> isWhiteSpace c \<Longrightarrow> trim s = s"
  by (simp add: trim_def dropWhile_none)

lemma set_leading: "set (replaceLeadingDots s) \<subseteq> set s"
  by (auto simp: replaceLeadingDots_def dest: set_dropWhileD)

lemma pre_trim_class:
  "c \<in> set (replaceLeadingDots (replaceDotDot (replaceInvalid n))) \<Longrightarrow> inNameClass c"
  using set_leading set_replaceDotDot set_replaceInvalid by blast

lemma cleanName_eq: "cleanName n = replaceLeadingDots (replaceDotDot (replaceInvalid n))"
  unfolding cleanName_def by (rule trim_id) (auto dest: pre_trim_class not_white_inNameClass)

lemma cleanName_class: "c \<in> set (cleanName n) \<Longrightarrow> inNameClass c"
  by (simp add: cleanName_eq pre_trim_class)

lemma cleanName_no_DotDot: "\<not> hasDotDot (cleanName n)"
  unfolding cleanName_eq replaceLeadingDots_def
  using hasDotDot_dropWhile replaceDotDot_no_DotDot by blast

lemma cleanName_no_leading_dot: "cleanName n = [] \<or> hd (cleanName n) \<noteq> DOT"
  unfolding cleanName_eq replaceLeadingDots_def
  using hd_dropWhile[of "\<lambda>c. c = DOT"] by blast

lemma not_class_SLASH [simp]: "\<not> inNameClass SLASH" "\<not> inNameClass BACKSLASH"
  by (simp_all add: inNameClass_def SLASH_def BACKSLASH_def DOT_def UNDERSCORE_def)

lemma cleanName_no_SLASH: "SLASH \<notin> set (cleanName n)" "BACKSLASH \<notin> set (cleanName n)"
  using cleanName_class not_class_SLASH by blast+

section \<open>Extension and base name of a name without separators\<close>

lemma lastComponent_no_slash: "SLASH \<notin> set s \<Longrightarrow> lastComponent s = s"
proof -
  assume a: "SLASH \<notin> set s"
  then have "dropWhile (\<lambda>c. c = SLASH) (rev s) = rev s"
    by (intro dropWhile_none) auto
  moreover from a have "takeWhile (\<lambda>c. c \<noteq> SLASH) (rev s) = rev s"
    by (intro takeWhile_eq_all_conv[THEN iffD2]) auto
  ultimately show ?thesis by (simp add: lastComponent_def del: takeWhile_eq_all_conv)
qed

lemma tail_len: "DOT \<in> set s \<Longrightarrow> length (takeWhile (\<lambda>x. x \<noteq> DOT) (rev s)) < length s"
proof -
  assume "DOT \<in> set s"
  then have "DOT \<in> set (rev s)" by simp
  then have "takeWhile (\<lambda>x. x \<noteq> DOT) (rev s) \<noteq> rev s"
    by (simp del: set_rev)
  then have "length (takeWhile (\<lambda>x. x \<noteq> DOT) (rev s)) \<noteq> length (rev s)"
    by (metis takeWhile_eq_take take_all_iff le_refl)
  then have "length (takeWhile (\<lambda>x. x \<noteq> DOT) (rev s)) < length (rev s)"
    using length_takeWhile_le[of "\<lambda>x. x \<noteq> DOT" "rev s"] by arith
  then show ?thesis by simp
qed

lemma extname_cases:
  assumes "SLASH \<notin> set s"
  shows "extname s = [] \<or>
         (\<exists>k. 0 < k \<and> k < length s \<and> extname s = drop k s \<and> s ! k = DOT)"
proof (cases "DOT \<in> set s")
  case False
  with assms show ?thesis by (simp add: extname_def lastComponent_no_slash Let_def)
next
  case True
  let ?t = "takeWhile (\<lambda>x. x \<noteq> DOT) (rev s)"
  let ?k = "length s - length ?t - 1"
  have lt: "length ?t < length s" using True by (rule tail_len)
  have k: "?k < length s" using lt by arith
  have "rev s ! length ?t = DOT"
    using nth_length_takeWhile[of "\<lambda>x. x \<noteq> DOT" "rev s"] lt by simp
  then have "s ! ?k = DOT"
    using lt by (simp add: rev_nth)
  then have dot: "s ! ?k = DOT" .
  have ext: "extname s = (if ?k = 0 then [] else if s = [DOT, DOT] then [] else drop ?k s)"
    using assms True by (simp add: extname_def lastComponent_no_slash Let_def)
  show ?thesis
  proof (cases "?k = 0 \<or> s = [DOT, DOT]")
    case True
    with ext show ?thesis by auto
  next
    case False
    with ext have "extname s = drop ?k s" by auto
    with False k dot have "0 < ?k \<and> ?k < length s \<and> extname s = drop ?k s \<and> s ! ?k = DOT"
      by simp
    then show ?thesis by blast
  qed
qed

lemma basename_extname:
  assumes "SLASH \<notin> set s"
  shows "basename s (extname s) @ extname s = s"
proof -
  from extname_cases[OF assms] show ?thesis
  proof
    assume "extname s = []"
    with assms show ?thesis by (simp add: basename_def lastComponent_no_slash)
  next
    assume "\<exists>k. 0 < k \<and> k < length s \<and> extname s = drop k s \<and> s ! k = DOT"
    then obtain k where k: "0 < k" "k < length s" "extname s = drop k s" by blast
    have ne: "drop k s \<noteq> []" using k by simp
    have neq: "drop k s \<noteq> s" using k
      by (metis append_take_drop_id length_take less_numeral_extra(3) min.absorb4 self_append_conv2 take_eq_Nil)
    have sf: "suffix (drop k s) s" by (rule suffix_drop)
    have "take (length s - length (drop k s)) s = take k s" using k by simp
    then show ?thesis
      using assms k ne neq sf by (simp add: basename_def lastComponent_no_slash Let_def)
  qed
qed

section \<open>The sanitized name has no separator and no two dots in a row\<close>

lemma hexDigit_isHex: "isHexDigit (hexDigit n)"
proof -
  have "n mod 16 < length ''0123456789abcdef''" by simp
  then have "''0123456789abcdef'' ! (n mod 16) \<in> set ''0123456789abcdef''"
    by (rule nth_mem)
  then show ?thesis unfolding hexDigit_def isHexDigit_def .
qed

lemma toHex_isHex: "c \<in> set (toHex rnd) \<Longrightarrow> isHexDigit c"
  by (auto simp: toHex_def hexDigit_isHex)

lemma length_toHex: "length (toHex rnd) = 2 * length rnd"
  by (induction rnd) (simp_all add: toHex_def)

lemma isHexDigit_class: "isHexDigit c \<Longrightarrow> inNameClass c \<and> c \<noteq> DOT"
  by (auto simp: isHexDigit_def inNameClass_def DOT_def)

lemma sanitizeFileName_eq:
  "sanitizeFileName rnd n =
     basename (cleanName n) (extname (cleanName n)) @ [UNDERSCORE] @ toHex rnd @ extname (cleanName n)"
  by (simp add: sanitizeFileName_def cleanName_def Let_def)

lemma sanitizeFileName_class: "c \<in> set (sanitizeFileName rnd n) \<Longrightarrow> inNameClass c"
proof -
  let ?s = "cleanName n"
  have split: "basename ?s (extname ?s) @ extname ?s = ?s"
    by (rule basename_extname) (rule cleanName_no_SLASH)
  assume "c \<in> set (sanitizeFileName rnd n)"
  then have "c \<in> set (basename ?s (extname ?s) @ extname ?s) \<or> c = UNDERSCORE \<or> c \<in> set (toHex rnd)"
    by (auto simp: sanitizeFileName_eq)
  then show ?thesis
    unfolding split using cleanName_class toHex_isHex isHexDigit_class by auto
qed

lemma sanitizeFileName_no_DotDot: "\<not> hasDotDot (sanitizeFileName rnd n)"
proof -
  let ?s = "cleanName n"
  let ?b = "basename ?s (extname ?s)" and ?e = "extname ?s"
  have split: "?b @ ?e = ?s"
    by (rule basename_extname) (rule cleanName_no_SLASH)
  have "\<not> hasDotDot (?b @ ?e)" unfolding split by (rule cleanName_no_DotDot)
  then have b: "\<not> hasDotDot ?b" and e: "\<not> hasDotDot ?e"
    using hasDotDot_append_left hasDotDot_append_right by blast+
  have "DOT \<notin> set (toHex rnd)" using toHex_isHex isHexDigit_class by blast
  then have "\<not> hasDotDot (toHex rnd @ ?e)" using e by (simp add: hasDotDot_no_dot)
  moreover have "UNDERSCORE \<noteq> DOT" by (simp add: UNDERSCORE_def DOT_def)
  ultimately have "\<not> hasDotDot (?b @ UNDERSCORE # (toHex rnd @ ?e))"
    using b by (simp add: hasDotDot_sep)
  then show ?thesis by (simp add: sanitizeFileName_eq)
qed

lemma sanitize_example:
  "sanitizeFileName [0, 1, 2, 3, 4, 5, 6, 255] ''../../etc/passwd''
     = ''__etc_passwd_00010203040506ff''"
  by code_simp

text \<open>
  C1. Whatever the file name and the random bytes, the result of \<^verbatim>\<open>sanitizeFileName\<close>
  contains no slash, no backslash and no two dots in a row: no traversal sequence survives
  or is put back.
\<close>

theorem sanitizeFileName_no_traversal:
  "CHR ''/'' \<notin> set (sanitizeFileName rnd fileName)
   \<and> CHR 0x5C \<notin> set (sanitizeFileName rnd fileName)
   \<and> \<not> sublist ''..'' (sanitizeFileName rnd fileName)"
proof -
  have "SLASH \<notin> set (sanitizeFileName rnd fileName)" "BACKSLASH \<notin> set (sanitizeFileName rnd fileName)"
    using sanitizeFileName_class not_class_SLASH by blast+
  moreover have "\<not> sublist [DOT, DOT] (sanitizeFileName rnd fileName)"
    using sanitizeFileName_no_DotDot hasDotDot_sublist by blast
  ultimately show ?thesis by (simp add: SLASH_def BACKSLASH_def DOT_def)
qed


theorem sanitizeFileName_no_traversal_witness:
  "sanitizeFileName [0, 1, 2, 3, 4, 5, 6, 255] ''../../etc/passwd''
     = ''__etc_passwd_00010203040506ff''
   \<and> CHR ''/'' \<notin> set (sanitizeFileName [0, 1, 2, 3, 4, 5, 6, 255] ''../../etc/passwd'')
   \<and> CHR 0x5C \<notin> set (sanitizeFileName [0, 1, 2, 3, 4, 5, 6, 255] ''../../etc/passwd'')
   \<and> \<not> sublist ''..'' (sanitizeFileName [0, 1, 2, 3, 4, 5, 6, 255] ''../../etc/passwd'')"
  using sanitizeFileName_no_traversal [of "[0, 1, 2, 3, 4, 5, 6, 255]" "''../../etc/passwd''"]
    sanitize_example
  by (intro conjI) blast+

section \<open>The specification's algorithm and the code compute the same name\<close>

lemma char_eq_code: "c = d \<longleftrightarrow> (of_char c :: nat) = of_char d"
  by auto

lemma upper_range:
  "c \<in> set ''ABCDEFGHIJKLMNOPQRSTUVWXYZ'' \<longleftrightarrow> 65 \<le> (of_char c :: nat) \<and> (of_char c :: nat) \<le> 90"
  by (simp add: char_eq_code) arith

lemma lower_range:
  "c \<in> set ''abcdefghijklmnopqrstuvwxyz'' \<longleftrightarrow> 97 \<le> (of_char c :: nat) \<and> (of_char c :: nat) \<le> 122"
  by (simp add: char_eq_code) arith

lemma digit_range:
  "c \<in> set ''0123456789'' \<longleftrightarrow> 48 \<le> (of_char c :: nat) \<and> (of_char c :: nat) \<le> 57"
  by (simp add: char_eq_code) arith

lemma spec_allowed_eq: "spec_allowed c = inNameClass c"
proof -
  have "spec_allowed c \<longleftrightarrow>
          c \<in> set ''ABCDEFGHIJKLMNOPQRSTUVWXYZ'' \<or> c \<in> set ''abcdefghijklmnopqrstuvwxyz''
          \<or> c \<in> set ''0123456789'' \<or> c \<in> set ''._-''"
    unfolding spec_allowed_def by auto
  then show ?thesis
    unfolding upper_range lower_range digit_range inNameClass_def Let_def DOT_def UNDERSCORE_def
    by auto
qed

lemma spec_replace_eq: "spec_replace s = replaceInvalid s"
  by (simp add: spec_replace_def replaceInvalid_def spec_allowed_eq UNDERSCORE_def)

lemma spec_removeDotDot_eq: "spec_removeDotDot s = replaceDotDot s"
  by (induction s rule: spec_removeDotDot.induct) (auto simp: DOT_def)

lemma spec_stripLeadingDots_eq: "spec_stripLeadingDots s = replaceLeadingDots s"
  by (simp add: spec_stripLeadingDots_def replaceLeadingDots_def DOT_def)

lemma spec_clean_eq:
  "spec_stripLeadingDots (spec_removeDotDot (spec_replace n)) = cleanName n"
  by (simp add: spec_replace_eq spec_removeDotDot_eq spec_stripLeadingDots_eq cleanName_eq)

lemma extname_last_dot:
  assumes "SLASH \<notin> set s" and "DOT \<in> set s" and "hd s \<noteq> DOT"
  shows "extname s = drop (length s - length (takeWhile (\<lambda>x. x \<noteq> DOT) (rev s)) - 1) s"
proof -
  let ?t = "takeWhile (\<lambda>x. x \<noteq> DOT) (rev s)"
  let ?k = "length s - length ?t - 1"
  have lt: "length ?t < length s" using assms(2) by (rule tail_len)
  have "rev s ! length ?t = DOT"
    using nth_length_takeWhile[of "\<lambda>x. x \<noteq> DOT" "rev s"] lt by simp
  then have dot: "s ! ?k = DOT" using lt by (simp add: rev_nth)
  have "s \<noteq> []" using assms(2) by auto
  then have "s ! 0 \<noteq> DOT" using assms(3) by (simp add: hd_conv_nth)
  with dot have k0: "?k \<noteq> 0" by metis
  have "s \<noteq> [DOT, DOT]" using assms(3) by auto
  with k0 assms show ?thesis
    by (simp add: extname_def lastComponent_no_slash Let_def)
qed

lemma spec_split_eq:
  assumes "SLASH \<notin> set s" and "s = [] \<or> hd s \<noteq> DOT"
  shows "spec_split s = (basename s (extname s), extname s)"
proof (cases "DOT \<in> set s")
  case False
  with assms show ?thesis
    by (simp add: spec_split_def extname_def basename_def lastComponent_no_slash Let_def DOT_def)
next
  case True
  then have "s \<noteq> []" by auto
  with assms have hd: "hd s \<noteq> DOT" by simp
  define k where "k = length s - length (takeWhile (\<lambda>x. x \<noteq> DOT) (rev s)) - 1"
  have e: "extname s = drop k s"
    unfolding k_def using assms(1) True hd by (rule extname_last_dot)
  have "basename s (extname s) @ extname s = s" using assms(1) by (rule basename_extname)
  then have "basename s (drop k s) @ drop k s = take k s @ drop k s"
    by (simp only: e append_take_drop_id)
  then have b: "basename s (drop k s) = take k s"
    by (simp only: append_same_eq)
  have "spec_split s = (take k s, drop k s)"
    using True by (simp add: spec_split_def Let_def DOT_def[symmetric] k_def)
  then show ?thesis by (simp only: e b)
qed

lemma sanitize_refines:
  "sanitizeFileName rnd n = spec_sanitize (toHex rnd) n"
proof -
  have "spec_split (cleanName n) = (basename (cleanName n) (extname (cleanName n)), extname (cleanName n))"
    by (rule spec_split_eq) (rule cleanName_no_SLASH cleanName_no_leading_dot)+
  then show ?thesis
    by (simp add: spec_sanitize_def spec_clean_eq sanitizeFileName_eq UNDERSCORE_def)
qed

text \<open>
  C5. \<^verbatim>\<open>sanitizeFileName\<close> computes the reference algorithm of the specification: invalid
  characters replaced, all \<^verbatim>\<open>..\<close> removed, leading dots stripped, the result split into base
  name and extension, and the suffix, 16 hexadecimal digits made from the 8 random bytes,
  put behind the base name and an underscore.
\<close>

theorem sanitizeFileName_is_reference_algorithm:
  assumes "length rnd = 8"
  shows "sanitizeFileName rnd fileName = spec_sanitize (toHex rnd) fileName
         \<and> length (toHex rnd) = 16
         \<and> set (toHex rnd) \<subseteq> set ''0123456789abcdef''"
proof (intro conjI)
  show "sanitizeFileName rnd fileName = spec_sanitize (toHex rnd) fileName"
    by (rule sanitize_refines)
  show "length (toHex rnd) = 16"
    using assms by (simp add: length_toHex)
  show "set (toHex rnd) \<subseteq> set ''0123456789abcdef''"
  proof
    fix c
    assume "c \<in> set (toHex rnd)"
    then have "isHexDigit c" by (rule toHex_isHex)
    then show "c \<in> set ''0123456789abcdef''" unfolding isHexDigit_def .
  qed
qed

theorem sanitizeFileName_is_reference_algorithm_witness:
  "sanitizeFileName [0, 1, 2, 3, 4, 5, 6, 255] ''report.pdf'' = ''report_00010203040506ff.pdf''
   \<and> spec_sanitize ''00010203040506ff'' ''report.pdf'' = ''report_00010203040506ff.pdf''"
proof -
  have h: "length [0, 1, 2, 3, 4, 5, 6, 255 :: 8 word] = 8" by simp
  have x: "toHex [0, 1, 2, 3, 4, 5, 6, 255] = ''00010203040506ff''" by code_simp
  have y: "spec_sanitize ''00010203040506ff'' ''report.pdf'' = ''report_00010203040506ff.pdf''"
    by code_simp
  have "sanitizeFileName [0, 1, 2, 3, 4, 5, 6, 255] ''report.pdf''
          = spec_sanitize (toHex [0, 1, 2, 3, 4, 5, 6, 255]) ''report.pdf''"
    using sanitizeFileName_is_reference_algorithm [OF h, of "''report.pdf''"]
    by (rule conjunct1)
  then have "sanitizeFileName [0, 1, 2, 3, 4, 5, 6, 255] ''report.pdf''
          = ''report_00010203040506ff.pdf''"
    by (simp only: x y)
  then show ?thesis using y by (rule conjI)
qed

section \<open>Sanitizing a sanitized name\<close>

lemma clean_fixed:
  assumes "\<forall>c\<in>set s. inNameClass c" and "\<not> hasDotDot s" and "s = [] \<or> hd s \<noteq> DOT"
  shows "cleanName s = s"
proof -
  have a: "replaceInvalid s = s" using assms(1) by (simp add: replaceInvalid_def map_idI)
  have b: "replaceDotDot s = s" using assms(2)
    by (induction s rule: replaceDotDot.induct) auto
  have c: "replaceLeadingDots s = s" using assms(3)
    by (cases s) (auto simp: replaceLeadingDots_def)
  show ?thesis by (simp add: cleanName_eq a b c)
qed

lemma sanitized_no_leading_dot:
  "hd (sanitizeFileName rnd n) \<noteq> DOT"
proof -
  let ?s = "cleanName n"
  let ?b = "basename ?s (extname ?s)"
  have split: "?b @ extname ?s = ?s"
    by (rule basename_extname) (rule cleanName_no_SLASH)
  show ?thesis
  proof (cases "?b = []")
    case True
    then show ?thesis by (simp add: sanitizeFileName_eq UNDERSCORE_def DOT_def)
  next
    case False
    then have "hd (sanitizeFileName rnd n) = hd ?b" by (simp add: sanitizeFileName_eq)
    also have "\<dots> = hd (?b @ extname ?s)" using False by simp
    also have "\<dots> = hd ?s" by (simp only: split)
    finally have "hd (sanitizeFileName rnd n) = hd ?s" .
    moreover have "?s \<noteq> []" using False split by auto
    ultimately show ?thesis using cleanName_no_leading_dot[of n] by simp
  qed
qed

lemma cleanName_sanitized: "cleanName (sanitizeFileName rnd n) = sanitizeFileName rnd n"
  by (rule clean_fixed)
     (auto simp: sanitizeFileName_class sanitizeFileName_no_DotDot sanitized_no_leading_dot)

lemma length_sanitizeFileName:
  "length (sanitizeFileName rnd n) = length (cleanName n) + 1 + 2 * length rnd"
proof -
  have "basename (cleanName n) (extname (cleanName n)) @ extname (cleanName n) = cleanName n"
    by (rule basename_extname) (rule cleanName_no_SLASH)
  then have "length (basename (cleanName n) (extname (cleanName n))) + length (extname (cleanName n))
     = length (cleanName n)" by (metis length_append)
  then show ?thesis by (simp add: sanitizeFileName_eq length_toHex)
qed

section \<open>Paths made of regular segments\<close>

lemma splitOn_not_Nil [simp]: "splitOn sep s \<noteq> []"
  by (induction s) (auto split: list.splits)

lemma splitOn_no_sep: "sep \<notin> set s \<Longrightarrow> splitOn sep s = [s]"
  by (induction s) auto

lemma splitOn_append: "splitOn sep (xs @ sep # ys) = splitOn sep xs @ splitOn sep ys"
proof (induction xs)
  case Nil
  then show ?case by simp
next
  case (Cons x xs)
  obtain seg segs where s: "splitOn sep xs = seg # segs"
    using splitOn_not_Nil[of sep xs] by (cases "splitOn sep xs") auto
  with Cons show ?case by simp
qed

lemma splitOn_segments: "seg \<in> set (splitOn sep s) \<Longrightarrow> sep \<notin> set seg"
proof (induction s arbitrary: seg)
  case Nil
  then show ?case by simp
next
  case (Cons c cs)
  obtain g gs where s: "splitOn sep cs = g # gs"
    using splitOn_not_Nil[of sep cs] by (cases "splitOn sep cs") auto
  show ?case
  proof (cases "c = sep")
    case True
    with Cons show ?thesis by auto
  next
    case False
    with Cons.prems s have "seg = c # g \<or> seg \<in> set gs" by simp
    with Cons.IH s False show ?thesis by auto
  qed
qed

lemma splitOn_joinWith:
  "segs \<noteq> [] \<Longrightarrow> \<forall>seg\<in>set segs. sep \<notin> set seg \<Longrightarrow> splitOn sep (joinWith [sep] segs) = segs"
proof (induction "[sep]" segs rule: joinWith.induct)
  case 1
  then show ?case by simp
next
  case (2 s)
  then show ?case by (simp add: splitOn_no_sep)
next
  case (3 s t ss)
  then show ?case by (simp add: splitOn_append splitOn_no_sep)
qed

lemma joinWith_snoc: "segs \<noteq> [] \<Longrightarrow> joinWith sep (segs @ [f]) = joinWith sep segs @ sep @ f"
  by (induction sep segs rule: joinWith.induct) auto

lemma joinWith_not_Nil: "segs \<noteq> [] \<Longrightarrow> hd segs \<noteq> [] \<Longrightarrow> joinWith sep segs \<noteq> []"
  by (induction sep segs rule: joinWith.induct) auto

lemma joinWith_last_not_Nil:
  "segs \<noteq> [] \<Longrightarrow> last segs \<noteq> [] \<Longrightarrow> joinWith sep segs \<noteq> []"
  by (induction sep segs rule: joinWith.induct) auto

lemma last_joinWith:
  "segs \<noteq> [] \<Longrightarrow> last segs \<noteq> [] \<Longrightarrow> last (joinWith sep segs) = last (last segs)"
proof (induction sep segs rule: joinWith.induct)
  case (3 sep s t ss)
  then have "joinWith sep (t # ss) \<noteq> []"
    using joinWith_last_not_Nil[of "t # ss" sep] by simp
  with 3 show ?case by simp
qed simp_all

lemma normStep_regular: "regularSeg seg \<Longrightarrow> normStep a res seg = res @ [seg]"
  by (simp add: normStep_def regularSeg_def)

lemma foldl_normStep_regular:
  "list_all regularSeg segs \<Longrightarrow> foldl (normStep a) res segs = res @ segs"
  by (induction segs arbitrary: res) (simp_all add: normStep_regular)

lemma normStep_keeps_regular:
  assumes "list_all regularSeg res" and "SLASH \<notin> set seg"
  shows "list_all regularSeg (normStep False res seg)"
proof -
  have "list_all regularSeg (butlast res)"
    using assms(1) by (auto simp: list_all_iff dest: in_set_butlastD)
  moreover have "seg \<noteq> [] \<Longrightarrow> seg \<noteq> [DOT] \<Longrightarrow> seg \<noteq> [DOT, DOT] \<Longrightarrow> regularSeg seg"
    using assms(2) by (simp add: regularSeg_def)
  ultimately show ?thesis using assms(1) by (auto simp: normStep_def)
qed

lemma foldl_normStep_keeps_regular:
  "list_all regularSeg res \<Longrightarrow> \<forall>seg\<in>set segs. SLASH \<notin> set seg
     \<Longrightarrow> list_all regularSeg (foldl (normStep False) res segs)"
  by (induction segs arbitrary: res) (simp_all add: normStep_keeps_regular)

lemma regular_no_slash: "list_all regularSeg segs \<Longrightarrow> \<forall>seg\<in>set segs. SLASH \<notin> set seg"
  by (simp add: list_all_iff regularSeg_def)

lemma splitOn_absPath:
  assumes "segs \<noteq> []" and "list_all regularSeg segs"
  shows "splitOn SLASH (absPath segs) = [] # segs"
  using assms by (simp add: absPath_def splitOn_joinWith regular_no_slash)

lemma normalizeString_absPath:
  assumes "segs \<noteq> []" and "list_all regularSeg segs"
  shows "normalizeString (absPath segs) a = joinWith [SLASH] segs"
proof -
  have "foldl (normStep a) [] ([] # segs) = segs"
    using assms(2) by (simp add: normStep_def foldl_normStep_regular)
  then show ?thesis
    using assms by (simp add: normalizeString_def splitOn_absPath)
qed

lemma normalizeString_absPath_slash:
  assumes "segs \<noteq> []" and "list_all regularSeg segs"
  shows "normalizeString (absPath segs @ [SLASH]) a = joinWith [SLASH] segs"
proof -
  have "splitOn SLASH (absPath segs @ [SLASH]) = ([] # segs) @ [[]]"
    using splitOn_append[of SLASH "absPath segs" "[]"] assms by (simp add: splitOn_absPath)
  moreover have "foldl (normStep a) [] (([] # segs) @ [[]]) = segs"
    using assms(2) by (simp add: normStep_def foldl_normStep_regular)
  ultimately show ?thesis by (simp add: normalizeString_def)
qed

lemma absPath_facts:
  assumes "segs \<noteq> []" and "list_all regularSeg segs"
  shows "absPath segs \<noteq> []" and "isAbsolute (absPath segs)" and "last (absPath segs) \<noteq> SLASH"
    and "joinWith [SLASH] segs \<noteq> []"
proof -
  show "absPath segs \<noteq> []" "isAbsolute (absPath segs)" by (simp_all add: absPath_def isAbsolute_def)
  have hd: "hd segs \<noteq> []" using assms by (cases segs) (auto simp: regularSeg_def)
  then show j: "joinWith [SLASH] segs \<noteq> []" using assms(1) by (simp add: joinWith_not_Nil)
  have l: "last segs \<noteq> []" "SLASH \<notin> set (last segs)"
    using assms by (auto simp: list_all_iff regularSeg_def)
  then have "last (last segs) \<noteq> SLASH" using last_in_set by metis
  then show "last (absPath segs) \<noteq> SLASH"
    using j l assms(1) by (simp add: absPath_def last_joinWith)
qed

lemma normalize_absPath:
  assumes "segs \<noteq> []" and "list_all regularSeg segs"
  shows "normalize (absPath segs) = absPath segs"
  using absPath_facts[OF assms] normalizeString_absPath[OF assms]
  by (simp add: normalize_def Let_def) (simp add: absPath_def)

lemma path_resolve_absPath:
  assumes "segs \<noteq> []" and "list_all regularSeg segs"
  shows "path_resolve cwd (absPath segs) = absPath segs"
  using absPath_facts[OF assms] normalizeString_absPath_slash[OF assms]
  by (simp add: path_resolve_def Let_def) (simp add: absPath_def)

lemma path_join_absPath:
  assumes "segs \<noteq> []" and "list_all regularSeg segs" and "regularSeg f"
  shows "path_join [absPath segs, f] = absPath (segs @ [f])"
proof -
  have f: "f \<noteq> []" using assms(3) by (simp add: regularSeg_def)
  have "joinWith [SLASH] [absPath segs, f] = absPath (segs @ [f])"
    using assms(1) by (simp add: absPath_def joinWith_snoc)
  moreover have "normalize (absPath (segs @ [f])) = absPath (segs @ [f])"
    by (rule normalize_absPath) (use assms in simp_all)
  moreover have "absPath (segs @ [f]) \<noteq> []" by (simp add: absPath_def)
  ultimately show ?thesis
    using f absPath_facts(1)[OF assms(1,2)] by (simp add: path_join_def Let_def)
qed

lemma absPath_snoc: "segs \<noteq> [] \<Longrightarrow> absPath (segs @ [f]) = absPath segs @ [SLASH] @ f"
  by (simp add: absPath_def joinWith_snoc)

lemma uploadDir_absPath:
  assumes "isAbsolute dirname"
  shows "\<exists>segs. segs \<noteq> [] \<and> list_all regularSeg segs \<and> uploadDir dirname = absPath segs"
proof -
  let ?S = "foldl (normStep False) [] (splitOn SLASH dirname)"
  let ?U = "?S @ [''uploads'']"
  have up: "regularSeg ''uploads''" by (simp add: regularSeg_def DOT_def SLASH_def)
  have S: "list_all regularSeg ?S"
    by (rule foldl_normStep_keeps_regular) (auto dest: splitOn_segments)
  have U: "list_all regularSeg ?U" using S up by simp
  have ne: "dirname \<noteq> []" using assms by (simp add: isAbsolute_def)
  have j: "joinWith [SLASH] [dirname, ''uploads''] = dirname @ SLASH # ''uploads''" by simp
  have abs: "isAbsolute (dirname @ SLASH # ''uploads'')"
    using assms by (simp add: isAbsolute_def)
  have "splitOn SLASH (dirname @ SLASH # ''uploads'') = splitOn SLASH dirname @ [''uploads'']"
    by (simp add: splitOn_append splitOn_no_sep SLASH_def)
  then have "foldl (normStep False) [] (splitOn SLASH (dirname @ SLASH # ''uploads'')) = ?U"
    using up by (simp add: normStep_regular)
  then have q: "normalizeString (dirname @ SLASH # ''uploads'') False = joinWith [SLASH] ?U"
    by (simp add: normalizeString_def)
  have qne: "joinWith [SLASH] ?U \<noteq> []"
    by (rule absPath_facts(4)) (use U in simp_all)
  have "normalize (dirname @ SLASH # ''uploads'') = absPath ?U"
    using abs q qne by (simp add: normalize_def Let_def absPath_def SLASH_def)
  then have "uploadDir dirname = absPath ?U"
    using ne by (simp add: uploadDir_def path_join_def Let_def)
  with U show ?thesis by blast
qed

section \<open>The path looked up by the retrieval endpoint\<close>

lemma sanitized_regular: "regularSeg (sanitizeFileName rnd n)"
proof -
  let ?f = "sanitizeFileName rnd n"
  have u: "UNDERSCORE \<in> set ?f" by (simp add: sanitizeFileName_eq)
  then have ne: "?f \<noteq> []" by auto
  have "UNDERSCORE \<noteq> DOT" by (simp add: UNDERSCORE_def DOT_def)
  with u have "?f \<noteq> [DOT]" "?f \<noteq> [DOT, DOT]" by auto
  moreover have "SLASH \<notin> set ?f" using sanitizeFileName_class not_class_SLASH by blast
  ultimately show ?thesis using ne by (simp add: regularSeg_def)
qed

lemma lookupPath_eq:
  assumes "isAbsolute dirname"
  shows "lookupPath dirname rnd requested
           = uploadDir dirname @ [SLASH] @ sanitizeFileName rnd requested"
    and "path_resolve cwd (lookupPath dirname rnd requested) = lookupPath dirname rnd requested"
    and "path_resolve cwd (uploadDir dirname) = uploadDir dirname"
proof -
  obtain segs where U: "segs \<noteq> []" "list_all regularSeg segs" "uploadDir dirname = absPath segs"
    using uploadDir_absPath[OF assms] by blast
  let ?f = "sanitizeFileName rnd requested"
  have l: "lookupPath dirname rnd requested = absPath (segs @ [?f])"
    using U sanitized_regular by (simp add: lookupPath_def path_join_absPath)
  then show "lookupPath dirname rnd requested = uploadDir dirname @ [SLASH] @ ?f"
    using U by (simp add: absPath_snoc)
  have "path_resolve cwd (absPath (segs @ [?f])) = absPath (segs @ [?f])"
    by (rule path_resolve_absPath) (use U sanitized_regular in simp_all)
  then show "path_resolve cwd (lookupPath dirname rnd requested) = lookupPath dirname rnd requested"
    by (simp add: l)
  show "path_resolve cwd (uploadDir dirname) = uploadDir dirname"
    using U by (simp add: path_resolve_absPath)
qed

lemma lookup_startsWith:
  assumes "isAbsolute dirname"
  shows "startsWith (path_resolve cwd (lookupPath dirname rnd requested))
           (path_resolve cwd (uploadDir dirname))"
  using lookupPath_eq[OF assms] by (simp add: startsWith_def)

lemma lookup_isDescendant:
  assumes "isAbsolute dirname"
  shows "isDescendant (uploadDir dirname) (lookupPath dirname rnd requested)"
proof -
  let ?f = "sanitizeFileName rnd requested"
  have r: "regularSeg ?f" by (rule sanitized_regular)
  then have "splitOn SLASH ?f = [?f]" by (simp add: splitOn_no_sep regularSeg_def)
  then show ?thesis
    using r lookupPath_eq(1)[OF assms] by (simp add: isDescendant_def regularSeg_def)
qed

lemma abs_app: "isAbsolute ''/app''"
  by (simp add: isAbsolute_def SLASH_def)

lemma resanitize_example:
  "sanitizeFileName [0, 1, 2, 3, 4, 5, 6, 255] ''report.pdf'' = ''report_00010203040506ff.pdf''"
  "sanitizeFileName [170, 187, 204, 221, 238, 255, 0, 17] ''report_00010203040506ff.pdf''
     = ''report_00010203040506ff_aabbccddeeff0011.pdf''"
  by code_simp+

lemma lookup_example:
  "lookupPath ''/app'' [0, 1, 2, 3, 4, 5, 6, 255] ''report.pdf''
     = ''/app/uploads/report_00010203040506ff.pdf''"
  "lookupPath ''/app'' [170, 187, 204, 221, 238, 255, 0, 17] ''report_00010203040506ff.pdf''
     = ''/app/uploads/report_00010203040506ff_aabbccddeeff0011.pdf''"
  "lookupPath ''/app'' [0, 1, 2, 3, 4, 5, 6, 255] ''../../etc/passwd''
     = ''/app/uploads/__etc_passwd_00010203040506ff''"
  by code_simp+

lemma uploadDir_example: "uploadDir ''/app'' = ''/app/uploads''"
  by code_simp

text \<open>
  C9. Sanitizing is not idempotent: sanitizing a sanitized name again, with any random
  bytes, gives a different and longer name. So the path that the retrieval endpoint looks
  up for a stored name is not the path where that name was stored.
\<close>

theorem sanitizeFileName_not_idempotent:
  "sanitizeFileName h2 (sanitizeFileName h1 n) \<noteq> sanitizeFileName h1 n
   \<and> length (sanitizeFileName h2 (sanitizeFileName h1 n))
       = length (sanitizeFileName h1 n) + 1 + 2 * length h2
   \<and> (isAbsolute dirname
        \<longrightarrow> lookupPath dirname h2 (sanitizeFileName h1 n) \<noteq> lookupPath dirname h1 n)"
proof -
  have len: "length (sanitizeFileName h2 (sanitizeFileName h1 n))
       = length (sanitizeFileName h1 n) + 1 + 2 * length h2"
    by (simp add: length_sanitizeFileName[of h2] cleanName_sanitized)
  then have neq: "sanitizeFileName h2 (sanitizeFileName h1 n) \<noteq> sanitizeFileName h1 n"
    by auto
  have "lookupPath dirname h2 (sanitizeFileName h1 n) \<noteq> lookupPath dirname h1 n"
    if "isAbsolute dirname"
    using neq by (simp add: lookupPath_eq(1)[OF that])
  with len neq show ?thesis by blast
qed

theorem sanitizeFileName_not_idempotent_witness:
  "isAbsolute ''/app''
   \<and> sanitizeFileName [170, 187, 204, 221, 238, 255, 0, 17]
        (sanitizeFileName [0, 1, 2, 3, 4, 5, 6, 255] ''report.pdf'')
       \<noteq> sanitizeFileName [0, 1, 2, 3, 4, 5, 6, 255] ''report.pdf''
   \<and> lookupPath ''/app'' [170, 187, 204, 221, 238, 255, 0, 17]
        (sanitizeFileName [0, 1, 2, 3, 4, 5, 6, 255] ''report.pdf'')
       \<noteq> lookupPath ''/app'' [0, 1, 2, 3, 4, 5, 6, 255] ''report.pdf''"
  using sanitizeFileName_not_idempotent
    [of "[170, 187, 204, 221, 238, 255, 0, 17]" "[0, 1, 2, 3, 4, 5, 6, 255]" "''report.pdf''"
        "''/app''"]
    abs_app
  by blast

section \<open>The retrieval endpoint\<close>

lemma get_traversal_example:
  "getUploadedFile ''/app'' ''/srv'' [0, 1, 2, 3, 4, 5, 6, 255]
     [''/app/uploads/__etc_passwd_00010203040506ff'' \<mapsto> [114], ''/etc/passwd'' \<mapsto> [115]]
     ''../../etc/passwd''
   = SendFile ''/app/uploads/__etc_passwd_00010203040506ff''"
  by code_simp

lemma get_example:
  "getUploadedFile ''/app'' ''/srv'' [0, 1, 2, 3, 4, 5, 6, 255]
     [''/app/uploads/report_00010203040506ff.pdf'' \<mapsto> [37, 80, 68, 70], ''/etc/passwd'' \<mapsto> [115]]
     ''report.pdf''
   = SendFile ''/app/uploads/report_00010203040506ff.pdf''"
  by code_simp

lemma outside_example:
  "existsSync [''/app/uploads/report_00010203040506ff.pdf'' \<mapsto> [37, 80, 68, 70], ''/etc/passwd'' \<mapsto> [115]]
     ''/etc/passwd''"
  "\<not> startsWith (path_resolve ''/srv'' ''/etc/passwd'') (path_resolve ''/srv'' (uploadDir ''/app''))"
  "\<not> existsSync [''/app/uploads/report_00010203040506ff.pdf'' \<mapsto> [37, 80, 68, 70], ''/etc/passwd'' \<mapsto> [115]]
     (lookupPath ''/app'' [0, 1, 2, 3, 4, 5, 6, 255] ''../../etc/passwd'')"
  by code_simp+

text \<open>
  The guard of the handler compares strings: on its own it lets a path through that only
  shares the characters of the upload directory. The handler never hands it such a path.
\<close>

lemma guard_prefix_example:
  "serveGuard ''/app'' ''/srv'' [''/app/uploads_old/x'' \<mapsto> [120]] ''/app/uploads_old/x''
     = SendFile ''/app/uploads_old/x''"
  by code_simp

text \<open>
  C10. In the handler of \<^verbatim>\<open>GET /uploads/:filename\<close> the answer 403 cannot occur: with an
  absolute \<^verbatim>\<open>__dirname\<close>, the path looked up resolves to a descendant of the resolved upload
  directory, so the \<^verbatim>\<open>startsWith\<close> test always holds.
\<close>

theorem forbidden_branch_unreachable:
  assumes "isAbsolute dirname"
  shows "isDescendant (path_resolve cwd (uploadDir dirname))
           (path_resolve cwd (lookupPath dirname rnd requested))
         \<and> startsWith (path_resolve cwd (lookupPath dirname rnd requested))
             (path_resolve cwd (uploadDir dirname))
         \<and> (\<forall>b. getUploadedFile dirname cwd rnd d requested \<noteq> Json 403 b)"
  using lookup_startsWith[OF assms, of cwd rnd requested]
    lookup_isDescendant[OF assms, of rnd requested]
    lookupPath_eq(2)[OF assms, of cwd rnd requested] lookupPath_eq(3)[OF assms, of cwd]
  by (simp add: getUploadedFile_def serveGuard_def Let_def)

theorem forbidden_branch_unreachable_witness:
  "isAbsolute ''/app''
   \<and> startsWith (path_resolve ''/srv'' (lookupPath ''/app'' [0, 1, 2, 3, 4, 5, 6, 255] ''../../etc/passwd''))
        (path_resolve ''/srv'' (uploadDir ''/app''))
   \<and> getUploadedFile ''/app'' ''/srv'' [0, 1, 2, 3, 4, 5, 6, 255]
        [''/app/uploads/__etc_passwd_00010203040506ff'' \<mapsto> [114], ''/etc/passwd'' \<mapsto> [115]]
        ''../../etc/passwd''
       \<noteq> Json 403 (Failure ''Zugriff verweigert'')"
  using forbidden_branch_unreachable
    [OF abs_app, of "''/srv''" "[0, 1, 2, 3, 4, 5, 6, 255]" "''../../etc/passwd''"
       "[''/app/uploads/__etc_passwd_00010203040506ff'' \<mapsto> [114], ''/etc/passwd'' \<mapsto> [115]]"]
    abs_app
  by blast

text \<open>
  C2. The handler of \<^verbatim>\<open>GET /uploads/:filename\<close> never sends a file from outside the upload
  directory: when no file is at the path looked up the answer is 404; a file that is sent
  exists and lies below the resolved upload directory; and the guard answers 403 for an
  existing path whose resolved form does not start with the resolved upload directory.
\<close>

theorem retrieval_stays_inside_uploadDir:
  assumes "isAbsolute dirname"
  shows "(\<not> existsSync d (lookupPath dirname rnd requested)
            \<longrightarrow> getUploadedFile dirname cwd rnd d requested
                  = Json 404 (Failure ''Datei nicht gefunden''))
         \<and> (\<forall>p. getUploadedFile dirname cwd rnd d requested = SendFile p
            \<longrightarrow> existsSync d p \<and> isDescendant (path_resolve cwd (uploadDir dirname)) p)
         \<and> (\<forall>filePath. existsSync d filePath
              \<and> \<not> startsWith (path_resolve cwd filePath) (path_resolve cwd (uploadDir dirname))
            \<longrightarrow> serveGuard dirname cwd d filePath = Json 403 (Failure ''Zugriff verweigert''))"
  using lookupPath_eq(2)[OF assms, of cwd rnd requested] lookupPath_eq(3)[OF assms, of cwd]
    lookup_isDescendant[OF assms, of rnd requested]
    lookup_startsWith[OF assms, of cwd rnd requested]
  by (auto simp: getUploadedFile_def serveGuard_def Let_def)

theorem retrieval_stays_inside_uploadDir_witness:
  "isAbsolute ''/app''
   \<and> getUploadedFile ''/app'' ''/srv'' [0, 1, 2, 3, 4, 5, 6, 255]
     [''/app/uploads/report_00010203040506ff.pdf'' \<mapsto> [37, 80, 68, 70], ''/etc/passwd'' \<mapsto> [115]]
     ''report.pdf''
      = SendFile ''/app/uploads/report_00010203040506ff.pdf''
   \<and> existsSync [''/app/uploads/report_00010203040506ff.pdf'' \<mapsto> [37, 80, 68, 70], ''/etc/passwd'' \<mapsto> [115]]
        ''/app/uploads/report_00010203040506ff.pdf''
   \<and> isDescendant (path_resolve ''/srv'' (uploadDir ''/app'')) ''/app/uploads/report_00010203040506ff.pdf''
   \<and> getUploadedFile ''/app'' ''/srv'' [0, 1, 2, 3, 4, 5, 6, 255]
     [''/app/uploads/report_00010203040506ff.pdf'' \<mapsto> [37, 80, 68, 70], ''/etc/passwd'' \<mapsto> [115]]
     ''../../etc/passwd''
      = Json 404 (Failure ''Datei nicht gefunden'')
   \<and> serveGuard ''/app'' ''/srv''
     [''/app/uploads/report_00010203040506ff.pdf'' \<mapsto> [37, 80, 68, 70], ''/etc/passwd'' \<mapsto> [115]]
     ''/etc/passwd''
      = Json 403 (Failure ''Zugriff verweigert'')"
  using retrieval_stays_inside_uploadDir
    [OF abs_app, of "[''/app/uploads/report_00010203040506ff.pdf'' \<mapsto> [37, 80, 68, 70], ''/etc/passwd'' \<mapsto> [115]]"
       "[0, 1, 2, 3, 4, 5, 6, 255]" "''report.pdf''" "''/srv''"]
   retrieval_stays_inside_uploadDir
    [OF abs_app, of "[''/app/uploads/report_00010203040506ff.pdf'' \<mapsto> [37, 80, 68, 70], ''/etc/passwd'' \<mapsto> [115]]"
       "[0, 1, 2, 3, 4, 5, 6, 255]" "''../../etc/passwd''" "''/srv''"]
    abs_app get_example outside_example
  by blast

section \<open>The rate limiter over a run of calls\<close>

lemma attemptsOf_upd:
  "attemptsOf (m(ip \<mapsto> ts)) c = (if c = ip then ts else attemptsOf m c)"
  by (simp add: attemptsOf_def)

lemma checkRateLimit_cases:
  assumes "checkRateLimit now ip m = (ok, m')"
  shows "(\<not> ok \<and> m' = m
          \<and> MAX_UPLOADS_PER_MINUTE
               \<le> length (filter (\<lambda>t. now - t < RATE_LIMIT_WINDOW) (attemptsOf m ip)))
       \<or> (ok \<and> m' = m(ip \<mapsto> filter (\<lambda>t. now - t < RATE_LIMIT_WINDOW) (attemptsOf m ip) @ [now])
          \<and> length (filter (\<lambda>t. now - t < RATE_LIMIT_WINDOW) (attemptsOf m ip))
               < MAX_UPLOADS_PER_MINUTE)"
  using assms by (auto simp: checkRateLimit_def Let_def split: if_splits)

lemma checkRateLimit_other:
  assumes "checkRateLimit now ip m = (ok, m')" and "ip \<noteq> c"
  shows "attemptsOf m' c = attemptsOf m c"
  using checkRateLimit_cases[OF assms(1)] assms(2) by (auto simp: attemptsOf_upd)

lemma acceptedTimes_Cons:
  "acceptedTimes c ((t, ip, ok) # log)
     = (if ip = c \<and> ok then t # acceptedTimes c log else acceptedTimes c log)"
  by (simp add: acceptedTimes_def)

lemma recorded_attempts_kept:
  assumes "runCalls calls m0 = (log, m)"
    and "\<forall>t\<in>set (acceptedTimes c log). t \<le> now \<and> now - t < RATE_LIMIT_WINDOW"
    and "attemptsOf m0 c = ys @ zs"
    and "\<forall>t\<in>set zs. t \<le> now \<and> now - t < RATE_LIMIT_WINDOW"
  shows "\<exists>ys'. attemptsOf m c = ys' @ zs @ acceptedTimes c log"
  using assms
proof (induction calls arbitrary: m0 log ys zs)
  case Nil
  then show ?case by (auto simp: acceptedTimes_def)
next
  case (Cons call calls)
  obtain t ip where call: "call = (t, ip)" by (cases call)
  obtain ok m1 where step: "checkRateLimit t ip m0 = (ok, m1)" by (cases "checkRateLimit t ip m0")
  obtain log' m2 where rest: "runCalls calls m1 = (log', m2)" by (cases "runCalls calls m1")
  from Cons.prems(1) call step rest have log: "log = (t, ip, ok) # log'" and m: "m = m2"
    by simp_all
  from rest m have rest': "runCalls calls m1 = (log', m)" by simp
  show ?case
  proof (cases "ip = c \<and> ok")
    case True
    then have acc: "acceptedTimes c log = t # acceptedTimes c log'"
      by (simp add: log acceptedTimes_Cons)
    with Cons.prems(2) have t: "t \<le> now" "now - t < RATE_LIMIT_WINDOW"
      and later: "\<forall>x\<in>set (acceptedTimes c log'). x \<le> now \<and> now - x < RATE_LIMIT_WINDOW"
      by simp_all
    have keep: "filter (\<lambda>x. t - x < RATE_LIMIT_WINDOW) zs = zs"
      using Cons.prems(4) t by (auto intro!: filter_True)
    from checkRateLimit_cases[OF step] True
    have "m1 = m0(ip \<mapsto> filter (\<lambda>x. t - x < RATE_LIMIT_WINDOW) (attemptsOf m0 ip) @ [t])"
      by auto
    with True Cons.prems(3) keep
    have m1: "attemptsOf m1 c = filter (\<lambda>x. t - x < RATE_LIMIT_WINDOW) ys @ (zs @ [t])"
      by (simp add: attemptsOf_upd)
    have "\<forall>x\<in>set (zs @ [t]). x \<le> now \<and> now - x < RATE_LIMIT_WINDOW"
      using Cons.prems(4) t by simp
    from Cons.IH[OF rest' later m1 this]
    show ?thesis by (simp add: acc)
  next
    case False
    then have acc: "acceptedTimes c log = acceptedTimes c log'"
      by (auto simp: log acceptedTimes_Cons)
    have "attemptsOf m1 c = attemptsOf m0 c"
    proof (cases "ip = c")
      case True
      with False have "\<not> ok" by simp
      with checkRateLimit_cases[OF step] show ?thesis by auto
    next
      case False
      then show ?thesis using checkRateLimit_other[OF step] by simp
    qed
    with Cons.prems(3) have m1: "attemptsOf m1 c = ys @ zs" by simp
    from Cons.IH[OF rest' _ m1 Cons.prems(4)] Cons.prems(2)
    show ?thesis by (simp add: acc)
  qed
qed

lemma tenCalls_run: "runCalls tenCalls Map.empty = (tenLog, tenState)"
  by (simp add: tenCalls_def tenLog_def tenState_def checkRateLimit_def attemptsOf_def Let_def
      MAX_UPLOADS_PER_MINUTE_def RATE_LIMIT_WINDOW_def fun_upd_twist)

lemma tenLog_accepted:
  "acceptedTimes ''a'' tenLog = [1000, 2000, 4000, 5000, 6000, 7000, 8000, 9000, 10000, 11000]"
  by (simp add: acceptedTimes_def tenLog_def)

lemma tenState_b: "attemptsOf tenState ''b'' = [3000]"
  by (simp add: attemptsOf_def tenState_def)

lemma tenState_late:
  "checkRateLimit 70000 ''a'' tenState
     = (True, [''b'' \<mapsto> [3000], ''a'' \<mapsto> [11000, 70000]])"
  by (simp add: checkRateLimit_def attemptsOf_def tenState_def Let_def
      MAX_UPLOADS_PER_MINUTE_def RATE_LIMIT_WINDOW_def)

text \<open>
  C3. With the threshold 10 and the window of 60 seconds: after a run of calls, from any
  map, in which \<^verbatim>\<open>checkRateLimit\<close> returned true for at least 10 calls of a client, all at
  times within the trailing window of the next call, that next call of the client returns
  false and leaves the map as it is; and a call of another client with fewer than 10
  recorded attempts in its own window then returns true.
\<close>

theorem eleventh_call_rejected:
  assumes "runCalls calls m0 = (log, m)"
    and "10 \<le> length (acceptedTimes c log)"
    and "\<forall>t\<in>set (acceptedTimes c log). t \<le> now \<and> now - t < 60 * 1000"
  shows "checkRateLimit now c m = (False, m)
         \<and> (\<forall>d now'. d \<noteq> c
               \<and> length (filter (\<lambda>t. now' - t < 60 * 1000) (attemptsOf m d)) < 10
             \<longrightarrow> fst (checkRateLimit now' d (snd (checkRateLimit now c m))))
         \<and> MAX_UPLOADS_PER_MINUTE = 10 \<and> RATE_LIMIT_WINDOW = 60 * 1000"
proof -
  have w: "RATE_LIMIT_WINDOW = 60 * 1000" by (simp add: RATE_LIMIT_WINDOW_def)
  have mx: "MAX_UPLOADS_PER_MINUTE = 10" by (simp add: MAX_UPLOADS_PER_MINUTE_def)
  have "attemptsOf m0 c = attemptsOf m0 c @ []" by simp
  from recorded_attempts_kept[OF assms(1) _ this] assms(3)
  obtain ys where ys: "attemptsOf m c = ys @ acceptedTimes c log"
    by (auto simp: w)
  have "filter (\<lambda>t. now - t < RATE_LIMIT_WINDOW) (acceptedTimes c log) = acceptedTimes c log"
    using assms(3) by (auto simp: w intro!: filter_True)
  then have "length (filter (\<lambda>t. now - t < RATE_LIMIT_WINDOW) (attemptsOf m c))
               \<ge> length (acceptedTimes c log)"
    by (simp add: ys)
  with assms(2) have rej: "checkRateLimit now c m = (False, m)"
    by (simp add: checkRateLimit_def Let_def mx)
  have "fst (checkRateLimit now' d m)"
    if "length (filter (\<lambda>t. now' - t < 60 * 1000) (attemptsOf m d)) < 10" for d now'
    using that by (simp add: checkRateLimit_def Let_def mx w)
  with rej w mx show ?thesis by simp
qed

theorem eleventh_call_rejected_witness:
  "10 \<le> length (acceptedTimes ''a'' tenLog)
   \<and> list_all (\<lambda>t. t \<le> 12000 \<and> 12000 - t < 60 * 1000) (acceptedTimes ''a'' tenLog)
   \<and> checkRateLimit 12000 ''a'' tenState = (False, tenState)
   \<and> fst (checkRateLimit 12000 ''b'' (snd (checkRateLimit 12000 ''a'' tenState)))"
proof -
  have n: "10 \<le> length (acceptedTimes ''a'' tenLog)"
    by (simp add: tenLog_accepted)
  have win: "\<forall>t\<in>set (acceptedTimes ''a'' tenLog). t \<le> 12000 \<and> 12000 - t < 60 * 1000"
    by (simp add: tenLog_accepted)
  have win': "list_all (\<lambda>t. t \<le> 12000 \<and> 12000 - t < 60 * 1000) (acceptedTimes ''a'' tenLog)"
    by (simp add: tenLog_accepted)
  have b: "''b'' \<noteq> ''a''
           \<and> length (filter (\<lambda>t. 12000 - t < 60 * 1000) (attemptsOf tenState ''b'')) < 10"
    by (simp add: tenState_b)
  note inst = eleventh_call_rejected [OF tenCalls_run n win]
  have rej: "checkRateLimit 12000 ''a'' tenState = (False, tenState)"
    by (rule conjunct1 [OF inst])
  have all: "\<forall>d now'. d \<noteq> ''a''
               \<and> length (filter (\<lambda>t. now' - t < 60 * 1000) (attemptsOf tenState d)) < 10
             \<longrightarrow> fst (checkRateLimit now' d (snd (checkRateLimit 12000 ''a'' tenState)))"
    by (rule conjunct1 [OF conjunct2 [OF inst]])
  have other: "fst (checkRateLimit 12000 ''b'' (snd (checkRateLimit 12000 ''a'' tenState)))"
    by (rule mp [OF spec [OF spec [OF all]] b])
  from n win' rej other show ?thesis by (intro conjI)
qed

lemma checkRateLimit_bounded:
  assumes "checkRateLimit now ip m = (ok, m')"
    and "\<forall>c. length (attemptsOf m c) \<le> MAX_UPLOADS_PER_MINUTE"
  shows "\<forall>c. length (attemptsOf m' c) \<le> MAX_UPLOADS_PER_MINUTE"
  using checkRateLimit_cases[OF assms(1)] assms(2)
  by (auto simp: attemptsOf_upd)

lemma runCalls_bounded:
  assumes "runCalls calls m0 = (log, m)"
    and "\<forall>c. length (attemptsOf m0 c) \<le> MAX_UPLOADS_PER_MINUTE"
  shows "\<forall>c. length (attemptsOf m c) \<le> MAX_UPLOADS_PER_MINUTE"
  using assms
proof (induction calls arbitrary: m0 log)
  case Nil
  then show ?case by simp
next
  case (Cons call calls)
  obtain t ip where call: "call = (t, ip)" by (cases call)
  obtain ok m1 where step: "checkRateLimit t ip m0 = (ok, m1)" by (cases "checkRateLimit t ip m0")
  obtain log' m2 where rest: "runCalls calls m1 = (log', m2)" by (cases "runCalls calls m1")
  from Cons.prems(1) call step rest have "runCalls calls m1 = (log', m)" by simp
  from Cons.IH[OF this checkRateLimit_bounded[OF step Cons.prems(2)]]
  show ?case .
qed

lemma filter_full: "length (filter P xs) \<ge> length xs \<Longrightarrow> filter P xs = xs"
  by (metis filter_True length_filter_le le_antisym length_filter_less not_le)

text \<open>
  C6. In every map that calls of \<^verbatim>\<open>checkRateLimit\<close> reach from the empty one, after a further
  call for a client, whatever it returns, the list stored for that client holds no time
  that is 60 seconds or more before the time of the call.
\<close>

theorem stored_attempts_pruned:
  assumes "runCalls calls Map.empty = (log, m)"
    and "checkRateLimit now ip m = (ok, m')"
  shows "\<forall>t\<in>set (attemptsOf m' ip). now - t < 60 * 1000"
proof -
  have w: "RATE_LIMIT_WINDOW = 60 * 1000" by (simp add: RATE_LIMIT_WINDOW_def)
  have "\<forall>c. length (attemptsOf Map.empty c) \<le> MAX_UPLOADS_PER_MINUTE"
    by (simp add: attemptsOf_def)
  from runCalls_bounded[OF assms(1) this]
  have bound: "length (attemptsOf m ip) \<le> MAX_UPLOADS_PER_MINUTE" by simp
  let ?recent = "filter (\<lambda>t. now - t < RATE_LIMIT_WINDOW) (attemptsOf m ip)"
  from checkRateLimit_cases[OF assms(2)] show ?thesis
  proof
    assume rej: "\<not> ok \<and> m' = m \<and> MAX_UPLOADS_PER_MINUTE \<le> length ?recent"
    with bound have "length (attemptsOf m ip) \<le> length ?recent" by simp
    then have "?recent = attemptsOf m ip" by (rule filter_full)
    then have "\<forall>t\<in>set (attemptsOf m ip). now - t < RATE_LIMIT_WINDOW"
      by (metis (mono_tags, lifting) filter_id_conv)
    with rej show ?thesis by (simp add: w)
  next
    assume "ok \<and> m' = m(ip \<mapsto> ?recent @ [now]) \<and> length ?recent < MAX_UPLOADS_PER_MINUTE"
    then show ?thesis by (auto simp: attemptsOf_upd w)
  qed
qed

theorem stored_attempts_pruned_witness:
  "checkRateLimit 70000 ''a'' tenState = (True, [''b'' \<mapsto> [3000], ''a'' \<mapsto> [11000, 70000]])
   \<and> list_all (\<lambda>t. 70000 - t < 60 * 1000)
        (attemptsOf [''b'' \<mapsto> [3000], ''a'' \<mapsto> [11000, 70000]] ''a'')"
proof -
  have "\<forall>t\<in>set (attemptsOf [''b'' \<mapsto> [3000], ''a'' \<mapsto> [11000, 70000]] ''a'').
          70000 - t < 60 * 1000"
    by (rule stored_attempts_pruned [OF tenCalls_run tenState_late])
  then have "list_all (\<lambda>t. 70000 - t < 60 * 1000)
        (attemptsOf [''b'' \<mapsto> [3000], ''a'' \<mapsto> [11000, 70000]] ''a'')"
    by (simp only: list_all_iff)
  with tenState_late show ?thesis by (rule conjI)
qed

section \<open>The upload chain, case by case\<close>

lemma multerSingle_cases:
  assumes "multerSingle dirname rnd d (Some file) = (res, d')"
  shows "(\<exists>err. fileFilter file = Inl err \<and> res = Inl err \<and> d' = d)
       \<or> (fileFilter file = Inr True \<and> MAX_FILE_SIZE < length (content file)
            \<and> res = Inl (MulterError ''LIMIT_FILE_SIZE'' ''File too large'')
            \<and> d' = d(path_join [uploadDir dirname, sanitizeFileName rnd (originalname file)] := None))
       \<or> (fileFilter file = Inr True \<and> length (content file) \<le> MAX_FILE_SIZE
            \<and> res = Inr (Some \<lparr>originalname = originalname file, mimetype = mimetype file,
                   destination = uploadDir dirname,
                   filename = sanitizeFileName rnd (originalname file),
                   path = path_join [uploadDir dirname, sanitizeFileName rnd (originalname file)],
                   size_f = length (content file)\<rparr>)
            \<and> d' = d(path_join [uploadDir dirname, sanitizeFileName rnd (originalname file)]
                       \<mapsto> content file))"
  using assms
  by (auto simp: multerSingle_def storageFilename_def fileFilter_def Let_def
      split: sum.splits if_splits)

lemma multerErrorResponse_failure: "\<exists>msg. multerErrorResponse err = Json 400 (Failure msg)"
  by (cases err) (auto simp: multerErrorResponse_def)

lemma postUpload_cases:
  assumes "postUpload dirname rnd now ip (Some file) s = (r, s')"
  shows "(r = Json 429 (Failure msgRateLimited) \<and> disk s' = disk s)
       \<or> (\<exists>res d'. multerSingle dirname rnd (disk s) (Some file) = (res, d')
             \<and> (case res of
                   Inl err \<Rightarrow> r = multerErrorResponse err \<and> disk s' = d'
                 | Inr reqFile \<Rightarrow> (r, disk s') = uploadHandler d' reqFile))"
  using assms
  by (auto simp: postUpload_def rateLimitMiddleware_def
      split: prod.splits option.splits sum.splits if_splits)

lemma uploadHandler_ok:
  assumes "size_f f \<le> MAX_FILE_SIZE"
  shows "uploadHandler d (Some f)
           = (Json 200 (Success ''Datei erfolgreich hochgeladen'' (originalname f) (filename f)
                (size_f f) (mimetype f) (''/uploads/'' @ filename f)), d)"
  using assms by (simp add: uploadHandler_def checkFileSize_def)

lemma uploadHandler_too_large:
  assumes "\<not> checkFileSize f"
  shows "(d (path f) \<noteq> None
            \<longrightarrow> uploadHandler d (Some f) = (Json 400 (Failure msgTooLarge), d(path f := None)))
       \<and> (d (path f) = None
            \<longrightarrow> uploadHandler d (Some f)
                  = (Json 500 (Failure (''Fehler beim Hochladen der Datei: ''
                                          @ errorMessage (ENOENT (path f)))), d))"
  using assms
  by (auto simp: uploadHandler_def uploadCatch_def unlinkSync_def existsSync_def)

lemma multerErrorResponse_not_200: "multerErrorResponse err \<noteq> Json 200 b"
  by (cases err) (auto simp: multerErrorResponse_def)

lemma postUpload_limited:
  assumes "\<not> fst (checkRateLimit now ip (attempts s))"
  shows "postUpload dirname rnd now ip part s
           = (Json 429 (Failure msgRateLimited),
              s\<lparr>attempts := snd (checkRateLimit now ip (attempts s))\<rparr>)"
proof -
  obtain ok m' where c: "checkRateLimit now ip (attempts s) = (ok, m')"
    by (cases "checkRateLimit now ip (attempts s)")
  with assms have "\<not> ok" by simp
  with c show ?thesis by (simp add: postUpload_def rateLimitMiddleware_def)
qed

lemma postUpload_passed:
  assumes "fst (checkRateLimit now ip (attempts s))"
    and "multerSingle dirname rnd (disk s) part = (res, d')"
  shows "postUpload dirname rnd now ip part s
           = (case res of
                Inl err \<Rightarrow> (multerErrorResponse err,
                             \<lparr>attempts = snd (checkRateLimit now ip (attempts s)), disk = d'\<rparr>)
              | Inr reqFile \<Rightarrow>
                  (fst (uploadHandler d' reqFile),
                   \<lparr>attempts = snd (checkRateLimit now ip (attempts s)),
                    disk = snd (uploadHandler d' reqFile)\<rparr>))"
proof -
  obtain ok m' where c: "checkRateLimit now ip (attempts s) = (ok, m')"
    by (cases "checkRateLimit now ip (attempts s)")
  with assms(1) have "ok" by simp
  with c assms(2) show ?thesis
    by (simp add: postUpload_def rateLimitMiddleware_def split: prod.splits sum.splits)
qed

lemma uploadHandler_too_large_gone:
  assumes "\<not> checkFileSize f"
  shows "(\<exists>status msg. fst (uploadHandler d (Some f)) = Json status (Failure msg) \<and> 400 \<le> status)
         \<and> snd (uploadHandler d (Some f)) (path f) = None
         \<and> snd (uploadHandler d (Some f)) \<subseteq>\<^sub>m d"
proof (cases "d (path f) = None")
  case True
  with uploadHandler_too_large[OF assms, of d] show ?thesis by simp
next
  case False
  with uploadHandler_too_large[OF assms, of d] show ?thesis by (simp add: map_le_def)
qed

section \<open>The example uploads\<close>

lemma pdfPart_sel:
  "originalname pdfPart = ''report.pdf''" "mimetype pdfPart = ''application/pdf''"
  "content pdfPart = [37, 80, 68, 70]"
  by (simp_all add: pdfPart_def)

lemma exePart_sel:
  "originalname exePart = ''evil.EXE''" "mimetype exePart = ''application/x-msdownload''"
  by (simp_all add: exePart_def)

lemma bigPart_sel:
  "originalname bigPart = ''report.pdf''" "mimetype bigPart = ''application/pdf''"
  "length (content bigPart) = Suc MAX_FILE_SIZE"
  by (simp_all add: bigPart_def)

lemma server0_sel: "attempts server0 = Map.empty" "disk server0 = disk0"
  by (simp_all add: server0_def)

lemma pdf_allowed: "isAllowedExtension ''report.pdf''" "isAllowedMimeType ''application/pdf''"
  by code_simp+

lemma exe_not_allowed: "\<not> isAllowedExtension ''evil.EXE''"
  by code_simp

lemma pdf_filter: "fileFilter pdfPart = Inr True" "fileFilter bigPart = Inr True"
  by (simp_all add: fileFilter_def pdfPart_sel bigPart_sel pdf_allowed)

lemma exe_filter: "fileFilter exePart = Inl (PlainError msgExtension)"
  by (simp add: fileFilter_def exePart_sel exe_not_allowed)

lemma pdf_name:
  "storageFilename [0, 1, 2, 3, 4, 5, 6, 255] pdfPart = ''report_00010203040506ff.pdf''"
  "storageFilename [0, 1, 2, 3, 4, 5, 6, 255] bigPart = ''report_00010203040506ff.pdf''"
  by (simp_all add: storageFilename_def pdfPart_sel bigPart_sel resanitize_example)

lemma pdf_path:
  "path_join [''/app/uploads'', ''report_00010203040506ff.pdf'']
     = ''/app/uploads/report_00010203040506ff.pdf''"
  by code_simp

lemma rate_first:
  "rateLimitMiddleware ''POST'' 5000 ''10.0.0.1'' Map.empty = (None, [''10.0.0.1'' \<mapsto> [5000]])"
  by (simp add: rateLimitMiddleware_def checkRateLimit_def attemptsOf_def Let_def
      MAX_UPLOADS_PER_MINUTE_def)

lemma multer_pdf:
  "multerSingle ''/app'' [0, 1, 2, 3, 4, 5, 6, 255] disk0 (Some pdfPart)
     = (Inr (Some \<lparr>originalname = ''report.pdf'', mimetype = ''application/pdf'',
                   destination = ''/app/uploads'', filename = ''report_00010203040506ff.pdf'',
                   path = ''/app/uploads/report_00010203040506ff.pdf'', size_f = 4\<rparr>),
        disk0(''/app/uploads/report_00010203040506ff.pdf'' \<mapsto> [37, 80, 68, 70]))"
  by (simp add: multerSingle_def pdf_filter pdf_name uploadDir_example pdf_path pdfPart_sel
      MAX_FILE_SIZE_def Let_def)

lemma multer_big:
  "multerSingle ''/app'' [0, 1, 2, 3, 4, 5, 6, 255] disk0 (Some bigPart)
     = (Inl (MulterError ''LIMIT_FILE_SIZE'' ''File too large''),
        disk0(''/app/uploads/report_00010203040506ff.pdf'' := None))"
  by (simp add: multerSingle_def pdf_filter pdf_name uploadDir_example pdf_path bigPart_sel
      Let_def)

lemma multer_exe:
  "multerSingle ''/app'' [0, 1, 2, 3, 4, 5, 6, 255] disk0 (Some exePart)
     = (Inl (PlainError msgExtension), disk0)"
  by (simp add: multerSingle_def exe_filter)

lemma upload_pdf_example:
  "postUpload ''/app'' [0, 1, 2, 3, 4, 5, 6, 255] 5000 ''10.0.0.1'' (Some pdfPart) server0
     = (Json 200 (Success ''Datei erfolgreich hochgeladen'' ''report.pdf''
                    ''report_00010203040506ff.pdf'' 4 ''application/pdf''
                    ''/uploads/report_00010203040506ff.pdf''),
        \<lparr>attempts = [''10.0.0.1'' \<mapsto> [5000]],
         disk = disk0(''/app/uploads/report_00010203040506ff.pdf'' \<mapsto> [37, 80, 68, 70])\<rparr>)"
  by (simp add: postUpload_def server0_sel rate_first multer_pdf uploadHandler_def
      checkFileSize_def MAX_FILE_SIZE_def)

lemma upload_exe_example:
  "postUpload ''/app'' [0, 1, 2, 3, 4, 5, 6, 255] 5000 ''10.0.0.1'' (Some exePart) server0
     = (Json 400 (Failure msgExtension), \<lparr>attempts = [''10.0.0.1'' \<mapsto> [5000]], disk = disk0\<rparr>)"
proof -
  have "msgExtension \<noteq> []" by (simp add: msgExtension_def)
  then show ?thesis
    by (simp add: postUpload_def server0_sel rate_first multer_exe multerErrorResponse_def)
qed

lemma upload_big_example:
  "postUpload ''/app'' [0, 1, 2, 3, 4, 5, 6, 255] 5000 ''10.0.0.1'' (Some bigPart) server0
     = (Json 400 (Failure msgTooLarge),
        \<lparr>attempts = [''10.0.0.1'' \<mapsto> [5000]],
         disk = disk0(''/app/uploads/report_00010203040506ff.pdf'' := None)\<rparr>)"
  by (simp add: postUpload_def server0_sel rate_first multer_big multerErrorResponse_def)

lemma big_length: "5 * 1024 * 1024 < length (content bigPart)"
  by (simp add: bigPart_sel MAX_FILE_SIZE_def)

lemma exe_rejected_hyp:
  "\<not> isAllowedExtension (originalname exePart) \<or> \<not> isAllowedMimeType (mimetype exePart)
         \<or> MAX_FILE_SIZE < length (content exePart)"
  by (simp add: exePart_sel exe_not_allowed)

lemma big_rejected_hyp:
  "\<not> isAllowedExtension (originalname bigPart) \<or> \<not> isAllowedMimeType (mimetype bigPart)
         \<or> MAX_FILE_SIZE < length (content bigPart)"
  by (simp add: bigPart_sel)

lemma bigStored_too_large: "\<not> checkFileSize bigStored"
  by (simp add: checkFileSize_def bigStored_def)

section \<open>Accepted and rejected uploads\<close>

text \<open>
  C8. When an upload is accepted (status 200), the \<^verbatim>\<open>size\<close> of the response is the number of
  bytes of the file, those bytes are on disk under the name of the response in the upload
  directory, and the size is at most 5 MiB; an upload longer than that is never accepted.
\<close>

theorem accepted_upload_size:
  "(\<forall>body s'. postUpload dirname rnd now ip (Some file) s = (Json 200 body, s')
      \<longrightarrow> (\<exists>name. body = Success ''Datei erfolgreich hochgeladen'' (originalname file) name
                          (length (content file)) (mimetype file) (''/uploads/'' @ name)
                 \<and> disk s' (path_join [uploadDir dirname, name]) = Some (content file)
                 \<and> length (content file) \<le> 5 * 1024 * 1024))
   \<and> (5 * 1024 * 1024 < length (content file)
      \<longrightarrow> (\<forall>body s'. postUpload dirname rnd now ip (Some file) s \<noteq> (Json 200 body, s')))"
proof -
  have mx: "MAX_FILE_SIZE = 5 * 1024 * 1024" by (simp add: MAX_FILE_SIZE_def)
  let ?name = "sanitizeFileName rnd (originalname file)"
  let ?p = "path_join [uploadDir dirname, ?name]"
  have main: "body = Success ''Datei erfolgreich hochgeladen'' (originalname file) ?name
                          (length (content file)) (mimetype file) (''/uploads/'' @ ?name)
                 \<and> disk s' ?p = Some (content file)
                 \<and> length (content file) \<le> MAX_FILE_SIZE"
    if ok: "postUpload dirname rnd now ip (Some file) s = (Json 200 body, s')" for body s'
  proof -
    from postUpload_cases[OF ok]
    obtain res d' where m: "multerSingle dirname rnd (disk s) (Some file) = (res, d')"
      and r: "case res of Inl err \<Rightarrow> Json 200 body = multerErrorResponse err \<and> disk s' = d'
              | Inr reqFile \<Rightarrow> (Json 200 body, disk s') = uploadHandler d' reqFile"
      by auto
    have noerr: "res \<noteq> Inl err" for err
      using r multerErrorResponse_not_200[of err body] by (auto split: sum.splits)
    from multerSingle_cases[OF m] noerr
    have small: "length (content file) \<le> MAX_FILE_SIZE"
      and res: "res = Inr (Some \<lparr>originalname = originalname file, mimetype = mimetype file,
                   destination = uploadDir dirname, filename = ?name, path = ?p,
                   size_f = length (content file)\<rparr>)"
      and d': "d' = (disk s)(?p \<mapsto> content file)"
      by auto
    from r res small have "body = Success ''Datei erfolgreich hochgeladen'' (originalname file) ?name
                          (length (content file)) (mimetype file) (''/uploads/'' @ ?name)"
      and "disk s' = d'"
      by (simp_all add: uploadHandler_ok)
    with d' small show ?thesis by simp
  qed
  show ?thesis
  proof (intro conjI allI impI)
    fix body s'
    assume "postUpload dirname rnd now ip (Some file) s = (Json 200 body, s')"
    from main[OF this] show "\<exists>name. body = Success ''Datei erfolgreich hochgeladen'' (originalname file) name
                          (length (content file)) (mimetype file) (''/uploads/'' @ name)
                 \<and> disk s' (path_join [uploadDir dirname, name]) = Some (content file)
                 \<and> length (content file) \<le> 5 * 1024 * 1024"
      unfolding mx by blast
  next
    fix body s'
    assume big: "5 * 1024 * 1024 < length (content file)"
    show "postUpload dirname rnd now ip (Some file) s \<noteq> (Json 200 body, s')"
    proof
      assume "postUpload dirname rnd now ip (Some file) s = (Json 200 body, s')"
      from main[OF this] have "length (content file) \<le> 5 * 1024 * 1024" unfolding mx by simp
      with big show False by simp
    qed
  qed
qed

theorem accepted_upload_size_witness:
  "postUpload ''/app'' [0, 1, 2, 3, 4, 5, 6, 255] 5000 ''10.0.0.1'' (Some pdfPart) server0
     = (Json 200 (Success ''Datei erfolgreich hochgeladen'' ''report.pdf''
                    ''report_00010203040506ff.pdf'' 4 ''application/pdf''
                    ''/uploads/report_00010203040506ff.pdf''),
        \<lparr>attempts = [''10.0.0.1'' \<mapsto> [5000]],
         disk = disk0(''/app/uploads/report_00010203040506ff.pdf'' \<mapsto> [37, 80, 68, 70])\<rparr>)
   \<and> (\<exists>name. Success ''Datei erfolgreich hochgeladen'' ''report.pdf''
                    ''report_00010203040506ff.pdf'' 4 ''application/pdf''
                    ''/uploads/report_00010203040506ff.pdf''
                = Success ''Datei erfolgreich hochgeladen'' (originalname pdfPart) name
                    (length (content pdfPart)) (mimetype pdfPart) (''/uploads/'' @ name)
              \<and> disk \<lparr>attempts = [''10.0.0.1'' \<mapsto> [5000]],
                       disk = disk0(''/app/uploads/report_00010203040506ff.pdf''
                                      \<mapsto> [37, 80, 68, 70])\<rparr>
                   (path_join [uploadDir ''/app'', name]) = Some (content pdfPart)
              \<and> length (content pdfPart) \<le> 5 * 1024 * 1024)
   \<and> 5 * 1024 * 1024 < length (content bigPart)
   \<and> (\<forall>body s'. postUpload ''/app'' [0, 1, 2, 3, 4, 5, 6, 255] 5000 ''10.0.0.1'' (Some bigPart)
                    server0 \<noteq> (Json 200 body, s'))"
proof -
  note a = accepted_upload_size
    [of "''/app''" "[0, 1, 2, 3, 4, 5, 6, 255]" 5000 "''10.0.0.1''" pdfPart server0]
  note b = accepted_upload_size
    [of "''/app''" "[0, 1, 2, 3, 4, 5, 6, 255]" 5000 "''10.0.0.1''" bigPart server0]
  have 1: "\<exists>name. Success ''Datei erfolgreich hochgeladen'' ''report.pdf''
                    ''report_00010203040506ff.pdf'' 4 ''application/pdf''
                    ''/uploads/report_00010203040506ff.pdf''
                = Success ''Datei erfolgreich hochgeladen'' (originalname pdfPart) name
                    (length (content pdfPart)) (mimetype pdfPart) (''/uploads/'' @ name)
              \<and> disk \<lparr>attempts = [''10.0.0.1'' \<mapsto> [5000]],
                       disk = disk0(''/app/uploads/report_00010203040506ff.pdf''
                                      \<mapsto> [37, 80, 68, 70])\<rparr>
                   (path_join [uploadDir ''/app'', name]) = Some (content pdfPart)
              \<and> length (content pdfPart) \<le> 5 * 1024 * 1024"
    by (rule a [THEN conjunct1, THEN spec, THEN spec, THEN mp, OF upload_pdf_example])
  have 2: "\<forall>body s'. postUpload ''/app'' [0, 1, 2, 3, 4, 5, 6, 255] 5000 ''10.0.0.1'' (Some bigPart)
                    server0 \<noteq> (Json 200 body, s')"
    by (rule b [THEN conjunct2, THEN mp, OF big_length])
  from upload_pdf_example 1 big_length 2 show ?thesis by (intro conjI)
qed

text \<open>
  C4. An upload with a disallowed extension, a disallowed MIME type or more bytes than the
  ceiling gets an error response, and every file on disk afterwards was there before, with
  the same bytes. When the request passed the rate limiter and the filter, the error is the
  size error and no file is left at the storage path. In the final handler, when the size
  check fails, no file is left at the path of the stored file and the response is an error.
\<close>

theorem rejected_upload_leaves_no_file:
  assumes "postUpload dirname rnd now ip (Some file) s = (r, s')"
    and "\<not> isAllowedExtension (originalname file) \<or> \<not> isAllowedMimeType (mimetype file)
         \<or> MAX_FILE_SIZE < length (content file)"
  shows "(\<exists>status msg. r = Json status (Failure msg) \<and> (status = 400 \<or> status = 429))
       \<and> disk s' \<subseteq>\<^sub>m disk s
       \<and> (fst (checkRateLimit now ip (attempts s))
            \<and> isAllowedExtension (originalname file) \<and> isAllowedMimeType (mimetype file)
          \<longrightarrow> r = Json 400 (Failure msgTooLarge)
              \<and> disk s' = (disk s)
                   (path_join [uploadDir dirname, sanitizeFileName rnd (originalname file)] := None))
       \<and> (\<forall>d f. \<not> checkFileSize f
            \<longrightarrow> (\<exists>status msg. fst (uploadHandler d (Some f)) = Json status (Failure msg)
                     \<and> 400 \<le> status)
                \<and> snd (uploadHandler d (Some f)) (path f) = None
                \<and> snd (uploadHandler d (Some f)) \<subseteq>\<^sub>m d)"
proof -
  let ?p = "path_join [uploadDir dirname, sanitizeFileName rnd (originalname file)]"
  have handler: "\<forall>d f. \<not> checkFileSize f
            \<longrightarrow> (\<exists>status msg. fst (uploadHandler d (Some f)) = Json status (Failure msg)
                     \<and> 400 \<le> status)
                \<and> snd (uploadHandler d (Some f)) (path f) = None
                \<and> snd (uploadHandler d (Some f)) \<subseteq>\<^sub>m d"
    using uploadHandler_too_large_gone by blast
  have pipeline: "(\<exists>status msg. r = Json status (Failure msg) \<and> (status = 400 \<or> status = 429))
       \<and> disk s' \<subseteq>\<^sub>m disk s
       \<and> (fst (checkRateLimit now ip (attempts s))
            \<and> isAllowedExtension (originalname file) \<and> isAllowedMimeType (mimetype file)
          \<longrightarrow> r = Json 400 (Failure msgTooLarge) \<and> disk s' = (disk s)(?p := None))"
  proof (cases "fst (checkRateLimit now ip (attempts s))")
    case False
    from postUpload_limited[OF False, of dirname rnd "Some file"] assms(1)
    have "r = Json 429 (Failure msgRateLimited)" and "disk s' = disk s" by auto
    with False show ?thesis by simp
  next
    case True
    obtain res d' where m: "multerSingle dirname rnd (disk s) (Some file) = (res, d')"
      by (cases "multerSingle dirname rnd (disk s) (Some file)")
    note post = postUpload_passed[OF True m]
    from multerSingle_cases[OF m] show ?thesis
    proof (elim disjE exE conjE)
      fix err
      assume e: "fileFilter file = Inl err" "res = Inl err" "d' = disk s"
      from e(1) have "\<not> (isAllowedExtension (originalname file) \<and> isAllowedMimeType (mimetype file))"
        by (auto simp: fileFilter_def split: if_splits)
      moreover from post e assms(1) have "r = multerErrorResponse err" "disk s' = disk s" by auto
      ultimately show ?thesis using multerErrorResponse_failure[of err] by auto
    next
      assume e: "fileFilter file = Inr True" "MAX_FILE_SIZE < length (content file)"
        "res = Inl (MulterError ''LIMIT_FILE_SIZE'' ''File too large'')"
        "d' = (disk s)(?p := None)"
      from post e assms(1) have "r = Json 400 (Failure msgTooLarge)" "disk s' = (disk s)(?p := None)"
        by (auto simp: multerErrorResponse_def)
      then show ?thesis by (simp add: map_le_def)
    next
      assume e: "fileFilter file = Inr True" "length (content file) \<le> MAX_FILE_SIZE"
      from e(1) have "isAllowedExtension (originalname file) \<and> isAllowedMimeType (mimetype file)"
        by (auto simp: fileFilter_def split: if_splits)
      with e(2) assms(2) show ?thesis by simp
    qed
  qed
  from pipeline handler show ?thesis by blast
qed

theorem rejected_upload_leaves_no_file_witness:
  "postUpload ''/app'' [0, 1, 2, 3, 4, 5, 6, 255] 5000 ''10.0.0.1'' (Some exePart) server0
     = (Json 400 (Failure msgExtension), \<lparr>attempts = [''10.0.0.1'' \<mapsto> [5000]], disk = disk0\<rparr>)
   \<and> disk \<lparr>attempts = [''10.0.0.1'' \<mapsto> [5000]], disk = disk0\<rparr> \<subseteq>\<^sub>m disk server0
   \<and> postUpload ''/app'' [0, 1, 2, 3, 4, 5, 6, 255] 5000 ''10.0.0.1'' (Some bigPart) server0
     = (Json 400 (Failure msgTooLarge),
        \<lparr>attempts = [''10.0.0.1'' \<mapsto> [5000]],
         disk = disk0(''/app/uploads/report_00010203040506ff.pdf'' := None)\<rparr>)
   \<and> disk \<lparr>attempts = [''10.0.0.1'' \<mapsto> [5000]],
            disk = disk0(''/app/uploads/report_00010203040506ff.pdf'' := None)\<rparr>
        \<subseteq>\<^sub>m disk server0
   \<and> snd (uploadHandler (disk0(''/app/uploads/big_00.pdf'' \<mapsto> [0])) (Some bigStored))
        (path bigStored) = None"
proof -
  note e = rejected_upload_leaves_no_file [OF upload_exe_example exe_rejected_hyp]
  note g = rejected_upload_leaves_no_file [OF upload_big_example big_rejected_hyp]
  have 1: "disk \<lparr>attempts = [''10.0.0.1'' \<mapsto> [5000]], disk = disk0\<rparr> \<subseteq>\<^sub>m disk server0"
    by (rule conjunct1 [OF conjunct2 [OF e]])
  have 2: "disk \<lparr>attempts = [''10.0.0.1'' \<mapsto> [5000]],
            disk = disk0(''/app/uploads/report_00010203040506ff.pdf'' := None)\<rparr>
        \<subseteq>\<^sub>m disk server0"
    by (rule conjunct1 [OF conjunct2 [OF g]])
  have "(\<exists>status msg. fst (uploadHandler (disk0(''/app/uploads/big_00.pdf'' \<mapsto> [0]))
                 (Some bigStored)) = Json status (Failure msg) \<and> 400 \<le> status)
       \<and> snd (uploadHandler (disk0(''/app/uploads/big_00.pdf'' \<mapsto> [0])) (Some bigStored))
            (path bigStored) = None
       \<and> snd (uploadHandler (disk0(''/app/uploads/big_00.pdf'' \<mapsto> [0])) (Some bigStored))
            \<subseteq>\<^sub>m disk0(''/app/uploads/big_00.pdf'' \<mapsto> [0])"
    by (rule g [THEN conjunct2, THEN conjunct2, THEN conjunct2, THEN spec, THEN spec, THEN mp,
          OF bigStored_too_large])
  then have 3: "snd (uploadHandler (disk0(''/app/uploads/big_00.pdf'' \<mapsto> [0])) (Some bigStored))
        (path bigStored) = None"
    by (rule conjunct1 [OF conjunct2])
  from upload_exe_example 1 upload_big_example 2 3 show ?thesis by (intro conjI)
qed

end
